theory Spec2Isabelle
  imports Complex_Main
begin

section \<open>Python values, errors and containers\<close>

text \<open>
  The scoring engine of \<^verbatim>\<open>Assigments/A2_2/A2_2.py\<close> is embedded function by function.
  Every exception the Python code can raise is a value of \<open>py_error\<close>, and a computation
  that may raise has the type \<open>py_error + 'a\<close>. Python floats are modelled by the reals:
  rounding, overflow and the special float values are not part of the model.
\<close>

datatype py_error = KeyError | ZeroDivisionError | ValueError | IndexError

text \<open>Sequencing of computations that may raise: the first exception wins.\<close>

definition py_then :: "py_error + 'a \<Rightarrow> ('a \<Rightarrow> py_error + 'b) \<Rightarrow> py_error + 'b" where
  "py_then m k = (case m of Inl e \<Rightarrow> Inl e | Inr v \<Rightarrow> k v)"

text \<open>\<^verbatim>\<open>d[k]\<close> on a dict raises KeyError for a missing key.\<close>

definition getitem :: "('k \<rightharpoonup> 'v) \<Rightarrow> 'k \<Rightarrow> py_error + 'v" where
  "getitem m k = (case m k of None \<Rightarrow> Inl KeyError | Some v \<Rightarrow> Inr v)"

text \<open>\<^verbatim>\<open>xs[i]\<close> on a list, for the non-negative indices that \<^verbatim>\<open>enumerate\<close> produces.\<close>

definition list_getitem :: "'a list \<Rightarrow> nat \<Rightarrow> py_error + 'a" where
  "list_getitem xs i = (if i < length xs then Inr (xs ! i) else Inl IndexError)"

text \<open>True division \<^verbatim>\<open>x / y\<close> raises ZeroDivisionError for a zero divisor.\<close>

definition py_div :: "real \<Rightarrow> real \<Rightarrow> py_error + real" where
  "py_div x y = (if y = 0 then Inl ZeroDivisionError else Inr (x / y))"

text \<open>\<^verbatim>\<open>math.log(x)\<close> raises ValueError outside the domain of the logarithm.\<close>

definition py_log :: "real \<Rightarrow> py_error + real" where
  "py_log x = (if x \<le> 0 then Inl ValueError else Inr (ln x))"

section \<open>Data model\<close>

text \<open>
  A document maps field names to term sequences. A collection is a dict from document
  identifiers to documents; it is kept as the list of its items in iteration order, and
  \<open>wf_collection\<close> says that the keys are unique, as they are in a dict. The index maps a
  field to a map from terms to the documents holding the term (\<^verbatim>\<open>CollectionType\<close>); the
  scorers only take the \<^verbatim>\<open>len\<close> of a posting list.
\<close>

type_synonym document = "string \<rightharpoonup> string list"
type_synonym collection = "(string \<times> document) list"
type_synonym index = "string \<rightharpoonup> (string \<rightharpoonup> string list)"
type_synonym scores = "string \<rightharpoonup> real"

definition wf_collection :: "collection \<Rightarrow> bool" where
  "wf_collection coll = distinct (map fst coll)"

subsection \<open>DocumentCollection\<close>

text \<open>\<^verbatim>\<open>sum(len(fields[field]) for fields in self.values())\<close>\<close>

fun total_field_length :: "collection \<Rightarrow> string \<Rightarrow> py_error + nat" where
  "total_field_length [] field = Inr 0"
| "total_field_length ((doc_id, fields) # rest) field =
     py_then (getitem fields field) (\<lambda>ts.
     py_then (total_field_length rest field) (\<lambda>n.
     Inr (length ts + n)))"

text \<open>\<^verbatim>\<open>self.total_field_length(field) / len(self)\<close>\<close>

definition avg_field_length :: "collection \<Rightarrow> string \<Rightarrow> py_error + real" where
  "avg_field_length coll field =
     py_then (total_field_length coll field) (\<lambda>total.
     py_div (real total) (real (length coll)))"

text \<open>\<^verbatim>\<open>{doc_id: doc[field] for (doc_id, doc) in self.items() if field in doc}\<close>\<close>

fun get_field_documents :: "collection \<Rightarrow> string \<Rightarrow> (string \<times> string list) list" where
  "get_field_documents [] field = []"
| "get_field_documents ((doc_id, doc) # rest) field =
     (case doc field of
        None \<Rightarrow> get_field_documents rest field
      | Some ts \<Rightarrow> (doc_id, ts) # get_field_documents rest field)"

subsection \<open>The score accumulator\<close>

text \<open>
  \<^verbatim>\<open>self.scores\<close> is a \<^verbatim>\<open>defaultdict(float)\<close>: reading a missing key gives 0.0, and
  \<^verbatim>\<open>self.scores[doc_id] += x\<close> stores the sum under the key.
\<close>

definition score_of :: "scores \<Rightarrow> string \<Rightarrow> real" where
  "score_of s doc_id = (case s doc_id of None \<Rightarrow> 0 | Some v \<Rightarrow> v)"

definition add_score :: "scores \<Rightarrow> string \<Rightarrow> real \<Rightarrow> scores" where
  "add_score s doc_id x = s(doc_id \<mapsto> score_of s doc_id + x)"

text \<open>
  Every \<^verbatim>\<open>score_term\<close> is a loop \<^verbatim>\<open>for doc_id, doc in self.collection.items()\<close>
  whose body either leaves the accumulator alone (\<open>None\<close>), adds a contribution to the
  document's score, or raises.
\<close>

fun score_docs ::
  "(document \<Rightarrow> py_error + real option) \<Rightarrow> collection \<Rightarrow> scores \<Rightarrow> py_error + scores" where
  "score_docs body [] s = Inr s"
| "score_docs body ((doc_id, doc) # rest) s =
     py_then (body doc) (\<lambda>r.
     case r of
       None \<Rightarrow> score_docs body rest s
     | Some x \<Rightarrow> score_docs body rest (add_score s doc_id x))"

section \<open>Ranking models\<close>

subsection \<open>SimpleScorer\<close>

definition simple_body :: "string \<Rightarrow> string \<Rightarrow> nat \<Rightarrow> document \<Rightarrow> py_error + real option" where
  "simple_body field term query_freq doc =
     py_then (getitem doc field) (\<lambda>ts.
     if term \<in> set ts then Inr (Some (real (count_list ts term * query_freq)))
     else Inr None)"

subsection \<open>ScorerBM25\<close>

definition bm25_body ::
  "collection \<Rightarrow> index \<Rightarrow> string \<Rightarrow> real \<Rightarrow> real \<Rightarrow> string \<Rightarrow> document
    \<Rightarrow> py_error + real option" where
  "bm25_body coll idx field b k1 term doc =
     py_then (getitem doc field) (\<lambda>ts.
     if term \<in> set ts then
       py_then (getitem idx field) (\<lambda>postings.
       py_then (getitem postings term) (\<lambda>holders.
       py_then (py_div (real (length coll)) (real (length holders))) (\<lambda>ratio.
       py_then (py_log ratio) (\<lambda>idf.
       let c_t_d = real (count_list ts term);
           numerator = c_t_d * (1 + k1)
       in
       py_then (avg_field_length coll field) (\<lambda>avg.
       py_then (py_div (b * real (length ts)) avg) (\<lambda>norm.
       let denominator = c_t_d + k1 * (1 - b + norm) in
       py_then (py_div numerator denominator) (\<lambda>frac.
       Inr (Some (frac * idf)))))))))
     else Inr None)"

subsection \<open>ScorerLM\<close>

text \<open>\<^verbatim>\<open>sum([doc[field].count(term) for doc in self.collection.values()])\<close>\<close>

fun total_term_count :: "collection \<Rightarrow> string \<Rightarrow> string \<Rightarrow> py_error + nat" where
  "total_term_count [] field term = Inr 0"
| "total_term_count ((doc_id, doc) # rest) field term =
     py_then (getitem doc field) (\<lambda>ts.
     py_then (total_term_count rest field term) (\<lambda>n.
     Inr (count_list ts term + n)))"

definition collection_prob :: "collection \<Rightarrow> string \<Rightarrow> string \<Rightarrow> py_error + real" where
  "collection_prob coll field term =
     py_then (total_term_count coll field term) (\<lambda>occurrences.
     py_then (total_field_length coll field) (\<lambda>total.
     py_div (real occurrences) (real total)))"

definition lm_body ::
  "string \<Rightarrow> real \<Rightarrow> string \<Rightarrow> nat \<Rightarrow> real \<Rightarrow> document \<Rightarrow> py_error + real option" where
  "lm_body field lambda term c_t_q P_t_C doc =
     py_then (getitem doc field) (\<lambda>ts.
     if term \<in> set ts then
       let c_t_d = real (count_list ts term) in
       py_then (py_div c_t_d (real (length ts))) (\<lambda>p_t_d.
       py_then (py_log ((1 - lambda) * p_t_d + lambda * P_t_C)) (\<lambda>l.
       Inr (Some (real c_t_q * l))))
     else Inr None)"

subsection \<open>ScorerBM25F\<close>

text \<open>
  The inner loop \<^verbatim>\<open>for field_index, field in enumerate(self.fields)\<close>; its state is the
  pair of the local variables \<^verbatim>\<open>c_t_d\<close> and \<^verbatim>\<open>idf\<close>.
\<close>

fun bm25f_fields ::
  "collection \<Rightarrow> index \<Rightarrow> real list \<Rightarrow> real list \<Rightarrow> string \<Rightarrow> document
    \<Rightarrow> (nat \<times> string) list \<Rightarrow> real \<times> real \<Rightarrow> py_error + real \<times> real" where
  "bm25f_fields coll idx field_weights bi term doc [] st = Inr st"
| "bm25f_fields coll idx field_weights bi term doc ((field_index, field) # rest) (c_t_d, idf) =
     py_then (list_getitem bi field_index) (\<lambda>b.
     py_then (getitem doc field) (\<lambda>ts.
     py_then (avg_field_length coll field) (\<lambda>avg.
     py_then (py_div (b * real (length ts)) avg) (\<lambda>norm.
     let B_i = 1 - b + norm in
     py_then (list_getitem field_weights field_index) (\<lambda>w.
     py_then (py_div (real (count_list ts term)) B_i) (\<lambda>normalized.
     let c_t_d' = c_t_d + w * normalized in
     if field = ''body'' then
       py_then (getitem idx field) (\<lambda>postings.
       py_then (getitem postings term) (\<lambda>holders.
       py_then (py_div (real (length coll)) (real (length holders))) (\<lambda>ratio.
       py_then (py_log ratio) (\<lambda>idf'.
       bm25f_fields coll idx field_weights bi term doc rest (c_t_d', idf')))))
     else bm25f_fields coll idx field_weights bi term doc rest (c_t_d', idf)))))))"

definition bm25f_body ::
  "collection \<Rightarrow> index \<Rightarrow> string list \<Rightarrow> real list \<Rightarrow> real list \<Rightarrow> real \<Rightarrow> string
    \<Rightarrow> document \<Rightarrow> py_error + real option" where
  "bm25f_body coll idx fields field_weights bi k1 term doc =
     py_then (bm25f_fields coll idx field_weights bi term doc (enumerate 0 fields) (0, 0))
       (\<lambda>(c_t_d, idf).
     py_then (py_div c_t_d (k1 + c_t_d)) (\<lambda>frac.
     Inr (Some (frac * idf))))"

subsection \<open>ScorerMLM\<close>

text \<open>The inner loop over the fields; its state is the pair \<^verbatim>\<open>(c_t_d, P_t_C)\<close>.\<close>

fun mlm_fields ::
  "collection \<Rightarrow> real list \<Rightarrow> string \<Rightarrow> document
    \<Rightarrow> (nat \<times> string) list \<Rightarrow> real \<times> real \<Rightarrow> py_error + real \<times> real" where
  "mlm_fields coll field_weights term doc [] st = Inr st"
| "mlm_fields coll field_weights term doc ((field_index, field) # rest) (c_t_d, P_t_C) =
     py_then (list_getitem field_weights field_index) (\<lambda>w.
     py_then (getitem doc field) (\<lambda>ts.
     py_then (py_div (real (count_list ts term)) (real (length ts))) (\<lambda>p_t_d.
     let c_t_d' = c_t_d + w * p_t_d in
     py_then (list_getitem field_weights field_index) (\<lambda>w'.
     py_then (collection_prob coll field term) (\<lambda>p_t_c.
     mlm_fields coll field_weights term doc rest (c_t_d', P_t_C + w' * p_t_c))))))"

definition mlm_body ::
  "collection \<Rightarrow> string list \<Rightarrow> real list \<Rightarrow> real \<Rightarrow> string \<Rightarrow> document
    \<Rightarrow> py_error + real option" where
  "mlm_body coll fields field_weights lambda term doc =
     py_then (mlm_fields coll field_weights term doc (enumerate 0 fields) (0, 0))
       (\<lambda>(c_t_d, P_t_C).
     py_then (py_log ((1 - lambda) * c_t_d + lambda * P_t_C)) (\<lambda>l.
     Inr (Some l)))"

subsection \<open>The scorer classes and the shared query loop\<close>

text \<open>
  A scorer object is its class together with the configuration its constructor stores:
  the field (or the fields with their weights) and the parameters of the model.
\<close>

datatype scorer =
    SimpleScorer string
  | ScorerBM25 string real real
  | ScorerLM string real
  | ScorerBM25F "string list" "real list" "real list" real
  | ScorerMLM "string list" "real list" real

fun score_term ::
  "scorer \<Rightarrow> collection \<Rightarrow> index \<Rightarrow> string \<Rightarrow> nat \<Rightarrow> scores \<Rightarrow> py_error + scores" where
  "score_term (SimpleScorer field) coll idx term query_freq s =
     score_docs (simple_body field term query_freq) coll s"
| "score_term (ScorerBM25 field b k1) coll idx term query_freq s =
     score_docs (bm25_body coll idx field b k1 term) coll s"
| "score_term (ScorerLM field smoothing_param) coll idx term query_freq s =
     py_then (collection_prob coll field term) (\<lambda>P_t_C.
     score_docs (lm_body field smoothing_param term query_freq P_t_C) coll s)"
| "score_term (ScorerBM25F fields field_weights bi k1) coll idx term query_freq s =
     score_docs (bm25f_body coll idx fields field_weights bi k1 term) coll s"
| "score_term (ScorerMLM fields field_weights smoothing_param) coll idx term query_freq s =
     score_docs (mlm_body coll fields field_weights smoothing_param term) coll s"

text \<open>
  \<^verbatim>\<open>Counter(query_terms)\<close>: the distinct terms in the order of their first occurrence,
  each with the number of its occurrences.
\<close>

fun counter_add :: "(string \<times> nat) list \<Rightarrow> string \<Rightarrow> (string \<times> nat) list" where
  "counter_add [] t = [(t, 1)]"
| "counter_add ((u, n) # rest) t =
     (if u = t then (u, Suc n) # rest else (u, n) # counter_add rest t)"

definition Counter :: "string list \<Rightarrow> (string \<times> nat) list" where
  "Counter query_terms = foldl counter_add [] query_terms"

text \<open>\<^verbatim>\<open>for term, query_freq in query_term_freqs.items(): self.score_term(term, query_freq)\<close>\<close>

fun score_terms ::
  "scorer \<Rightarrow> collection \<Rightarrow> index \<Rightarrow> (string \<times> nat) list \<Rightarrow> scores \<Rightarrow> py_error + scores" where
  "score_terms sc coll idx [] s = Inr s"
| "score_terms sc coll idx ((term, query_freq) # rest) s =
     py_then (score_term sc coll idx term query_freq s) (\<lambda>s'.
     score_terms sc coll idx rest s')"

definition score_collection ::
  "scorer \<Rightarrow> collection \<Rightarrow> index \<Rightarrow> string list \<Rightarrow> py_error + scores" where
  "score_collection sc coll idx query_terms =
     score_terms sc coll idx (Counter query_terms) Map.empty"

section \<open>Reference definitions and sample data\<close>

text \<open>Every document of the collection has the field.\<close>

definition all_have_field :: "collection \<Rightarrow> string \<Rightarrow> bool" where
  "all_have_field coll field = list_all (\<lambda>(doc_id, doc). doc field \<noteq> None) coll"

text \<open>
  The total field length as the specification words it: the sum of the field's lengths
  over all documents, a document without the field counting 0.
\<close>

definition field_length_or_zero :: "document \<Rightarrow> string \<Rightarrow> nat" where
  "field_length_or_zero doc field = (case doc field of None \<Rightarrow> 0 | Some ts \<Rightarrow> length ts)"

definition spec_total_field_length :: "collection \<Rightarrow> string \<Rightarrow> nat" where
  "spec_total_field_length coll field =
     sum_list (map (\<lambda>(doc_id, doc). field_length_or_zero doc field) coll)"

text \<open>The collection and the index of the specification's concrete scenario.\<close>

definition coll_ab :: collection where
  "coll_ab =
     [(''d1'', [''body'' \<mapsto> [''a'', ''b'', ''a'']]), (''d2'', [''body'' \<mapsto> [''b'', ''b'']])]"

definition index_ab :: index where
  "index_ab = [''body'' \<mapsto> [''a'' \<mapsto> [''d1''], ''b'' \<mapsto> [''d1'', ''d2'']]]"

text \<open>A collection whose second document has no body.\<close>

definition coll_missing_body :: collection where
  "coll_missing_body =
     [(''d1'', [''body'' \<mapsto> [''a'']]), (''d2'', [''title'' \<mapsto> [''b'']])]"

text \<open>
  The index holds no empty posting list for the field and the term (an index built from
  the collection lists every document that holds the term).
\<close>

definition posting_nonempty :: "index \<Rightarrow> string \<Rightarrow> string \<Rightarrow> bool" where
  "posting_nonempty idx field term =
     (case idx field of
        None \<Rightarrow> True
      | Some postings \<Rightarrow> (case postings term of None \<Rightarrow> True | Some holders \<Rightarrow> holders \<noteq> []))"

text \<open>An index whose posting list for the term \<open>a\<close> is empty.\<close>

definition index_empty_posting :: index where
  "index_empty_posting = [''body'' \<mapsto> [''a'' \<mapsto> []]]"

text \<open>A collection whose second document has no title.\<close>

definition coll_missing_title :: collection where
  "coll_missing_title =
     [(''d1'', [''title'' \<mapsto> [''a''], ''body'' \<mapsto> [''a'', ''b'']]),
      (''d2'', [''body'' \<mapsto> [''a'']])]"

text \<open>What one pass of the loop body adds to a document's score.\<close>

definition contribution :: "real option \<Rightarrow> real" where
  "contribution r = (case r of None \<Rightarrow> 0 | Some x \<Rightarrow> x)"

text \<open>
  The index contract the scorers rely on: no posting list that the index holds for a term
  occurring in the field of some document is empty (an index built from the collection
  lists at least the documents that hold the term).
\<close>

definition index_lists_holders :: "collection \<Rightarrow> index \<Rightarrow> string \<Rightarrow> bool" where
  "index_lists_holders coll idx field =
     list_all (\<lambda>(doc_id, doc).
        case doc field of
          None \<Rightarrow> True
        | Some ts \<Rightarrow> list_all (posting_nonempty idx field) ts) coll"

text \<open>
  The sum of the products of a document's term count and the query frequency, over the
  items of a \<^verbatim>\<open>Counter\<close>.
\<close>

definition term_products :: "string list \<Rightarrow> (string \<times> nat) list \<Rightarrow> real" where
  "term_products ts cs = sum_list (map (\<lambda>(t, n). real (count_list ts t * n)) cs)"

section \<open>Basic facts\<close>

lemma py_then_Inl [simp]: "py_then (Inl e) k = Inl e"
  by (simp add: py_then_def)

lemma py_then_Inr [simp]: "py_then (Inr v) k = k v"
  by (simp add: py_then_def)

lemma py_then_eq_Inr: "py_then m k = Inr y \<longleftrightarrow> (\<exists>v. m = Inr v \<and> k v = Inr y)"
  by (cases m) simp_all

lemma getitem_Some [simp]: "m k = Some v \<Longrightarrow> getitem m k = Inr v"
  by (simp add: getitem_def)

lemma getitem_None [simp]: "m k = None \<Longrightarrow> getitem m k = Inl KeyError"
  by (simp add: getitem_def)

lemma getitem_eq_Inr: "getitem m k = Inr v \<longleftrightarrow> m k = Some v"
  by (simp add: getitem_def split: option.splits)

section \<open>The loop over the documents\<close>

lemma score_of_add_score:
  "score_of (add_score s d x) d' = score_of s d' + (if d' = d then x else 0)"
  by (simp add: add_score_def score_of_def)

lemma score_docs_other:
  "doc_id \<notin> fst ` set coll \<Longrightarrow> score_docs body coll s = Inr s' \<Longrightarrow> s' doc_id = s doc_id"
proof (induction coll arbitrary: s)
  case Nil
  then show ?case by simp
next
  case (Cons p coll)
  obtain d doc where p: "p = (d, doc)" by (cases p)
  from Cons.prems(2) obtain r where r: "body doc = Inr r"
    and rest: "(case r of None \<Rightarrow> score_docs body coll s
                | Some x \<Rightarrow> score_docs body coll (add_score s d x)) = Inr s'"
    by (auto simp: p py_then_eq_Inr)
  from Cons.prems(1) have nd: "doc_id \<noteq> d" and ni: "doc_id \<notin> fst ` set coll"
    by (auto simp: p)
  show ?case
  proof (cases r)
    case None
    with rest Cons.IH [OF ni] show ?thesis by simp
  next
    case (Some x)
    with rest have "score_docs body coll (add_score s d x) = Inr s'" by simp
    from Cons.IH [OF ni this] have "s' doc_id = add_score s d x doc_id" .
    with nd show ?thesis by (simp add: add_score_def)
  qed
qed

lemma score_docs_bodies:
  "score_docs body coll s = Inr s' \<Longrightarrow> (d, doc) \<in> set coll \<Longrightarrow> \<exists>r. body doc = Inr r"
proof (induction coll arbitrary: s)
  case Nil
  then show ?case by simp
next
  case (Cons p coll)
  obtain d0 doc0 where p: "p = (d0, doc0)" by (cases p)
  from Cons.prems(1) obtain r where r: "body doc0 = Inr r"
    and rest: "(case r of None \<Rightarrow> score_docs body coll s
                | Some x \<Rightarrow> score_docs body coll (add_score s d0 x)) = Inr s'"
    by (auto simp: p py_then_eq_Inr)
  show ?case
  proof (cases "(d, doc) = (d0, doc0)")
    case True
    with r show ?thesis by auto
  next
    case False
    with Cons.prems(2) have "(d, doc) \<in> set coll" by (auto simp: p)
    with rest Cons.IH show ?thesis by (cases r) auto
  qed
qed

lemma score_docs_at:
  "distinct (map fst coll) \<Longrightarrow> (doc_id, doc) \<in> set coll \<Longrightarrow> score_docs body coll s = Inr s'
   \<Longrightarrow> body doc = Inr r
   \<Longrightarrow> s' doc_id = (case r of None \<Rightarrow> s doc_id | Some x \<Rightarrow> Some (score_of s doc_id + x))"
proof (induction coll arbitrary: s)
  case Nil
  then show ?case by simp
next
  case (Cons p coll)
  obtain d0 doc0 where p: "p = (d0, doc0)" by (cases p)
  from Cons.prems(3) obtain r0 where r0: "body doc0 = Inr r0"
    and rest: "(case r0 of None \<Rightarrow> score_docs body coll s
                | Some x \<Rightarrow> score_docs body coll (add_score s d0 x)) = Inr s'"
    by (auto simp: p py_then_eq_Inr)
  from Cons.prems(1) have dist: "distinct (map fst coll)" and d0: "d0 \<notin> fst ` set coll"
    by (auto simp: p)
  show ?case
  proof (cases "(doc_id, doc) = (d0, doc0)")
    case True
    then have eq: "doc_id = d0" "doc = doc0" by auto
    with r0 Cons.prems(4) have "r0 = r" by simp
    with rest d0 eq show ?thesis
      by (cases r) (auto dest!: score_docs_other [OF d0] simp: add_score_def)
  next
    case False
    with Cons.prems(2) have mem: "(doc_id, doc) \<in> set coll" by (auto simp: p)
    then have ne: "doc_id \<noteq> d0" using d0 by force
    show ?thesis
    proof (cases r0)
      case None
      with rest have "score_docs body coll s = Inr s'" by simp
      from Cons.IH [OF dist mem this Cons.prems(4)] show ?thesis .
    next
      case (Some x0)
      with rest have "score_docs body coll (add_score s d0 x0) = Inr s'" by simp
      from Cons.IH [OF dist mem this Cons.prems(4)]
      have "s' doc_id = (case r of None \<Rightarrow> add_score s d0 x0 doc_id
              | Some x \<Rightarrow> Some (score_of (add_score s d0 x0) doc_id + x))" .
      moreover have "add_score s d0 x0 doc_id = s doc_id"
        using ne by (simp add: add_score_def)
      moreover have "score_of (add_score s d0 x0) doc_id = score_of s doc_id"
        using ne by (simp add: score_of_add_score)
      ultimately show ?thesis by (cases r) simp_all
    qed
  qed
qed

lemma score_docs_succeeds:
  "(\<And>d doc. (d, doc) \<in> set coll \<Longrightarrow> \<exists>r. body doc = Inr r) \<Longrightarrow> \<exists>s'. score_docs body coll s = Inr s'"
proof (induction coll arbitrary: s)
  case Nil
  then show ?case by simp
next
  case (Cons p coll)
  obtain d0 doc0 where p: "p = (d0, doc0)" by (cases p)
  from Cons.prems [of d0 doc0] obtain r where r: "body doc0 = Inr r" by (auto simp: p)
  have "\<And>s. \<exists>s'. score_docs body coll s = Inr s'"
    using Cons.IH Cons.prems by (simp add: p) blast
  with r show ?case by (cases r) (simp_all add: p)
qed

lemma score_docs_delta:
  "score_docs body coll s = Inr s' \<Longrightarrow>
   \<exists>t'. score_docs body coll t = Inr t'
     \<and> (\<forall>d. score_of t' d = score_of t d + (score_of s' d - score_of s d))"
proof (induction coll arbitrary: s t)
  case Nil
  then show ?case by simp
next
  case (Cons p coll)
  obtain d0 doc0 where p: "p = (d0, doc0)" by (cases p)
  from Cons.prems obtain r where r: "body doc0 = Inr r"
    and rest: "(case r of None \<Rightarrow> score_docs body coll s
                | Some x \<Rightarrow> score_docs body coll (add_score s d0 x)) = Inr s'"
    by (auto simp: p py_then_eq_Inr)
  show ?case
  proof (cases r)
    case None
    with rest r Cons.IH [of s t] show ?thesis by (simp add: p)
  next
    case (Some x)
    with rest have "score_docs body coll (add_score s d0 x) = Inr s'" by simp
    from Cons.IH [OF this, of "add_score t d0 x"] obtain t' where
      t': "score_docs body coll (add_score t d0 x) = Inr t'"
      and v: "\<forall>d. score_of t' d = score_of (add_score t d0 x) d
                + (score_of s' d - score_of (add_score s d0 x) d)" by blast
    from v have "\<forall>d. score_of t' d = score_of t d + (score_of s' d - score_of s d)"
      by (simp add: score_of_add_score)
    with t' r Some show ?thesis by (simp add: p)
  qed
qed

lemma score_docs_dom:
  "(\<And>doc r. body doc = Inr r \<Longrightarrow> r \<noteq> None) \<Longrightarrow> score_docs body coll s = Inr s'
   \<Longrightarrow> dom s \<union> fst ` set coll \<subseteq> dom s'"
proof (induction coll arbitrary: s)
  case Nil
  then show ?case by simp
next
  case (Cons p coll)
  obtain d0 doc0 where p: "p = (d0, doc0)" by (cases p)
  from Cons.prems(2) obtain r where r: "body doc0 = Inr r"
    and rest: "(case r of None \<Rightarrow> score_docs body coll s
                | Some x \<Rightarrow> score_docs body coll (add_score s d0 x)) = Inr s'"
    by (auto simp: p py_then_eq_Inr)
  from Cons.prems(1) [OF r] obtain x where x: "r = Some x" by auto
  with rest have step: "score_docs body coll (add_score s d0 x) = Inr s'" by simp
  have "dom (add_score s d0 x) \<union> fst ` set coll \<subseteq> dom s'"
    by (rule Cons.IH [OF Cons.prems(1) step])
  moreover have "dom (add_score s d0 x) = insert d0 (dom s)"
    by (simp add: add_score_def)
  ultimately show ?case by (auto simp: p)
qed

section \<open>Query term frequencies\<close>

lemma map_of_counter_add:
  "map_of (counter_add acc t) u =
     (if u = t then Some (case map_of acc t of None \<Rightarrow> 1 | Some n \<Rightarrow> Suc n) else map_of acc u)"
  by (induction acc) auto

lemma keys_counter_add: "fst ` set (counter_add acc t) = insert t (fst ` set acc)"
proof (induction acc)
  case Nil
  then show ?case by simp
next
  case (Cons p acc)
  obtain u n where p: "p = (u, n)" by (cases p)
  show ?case
    by (cases "u = t") (simp_all add: p Cons.IH insert_commute)
qed

lemma distinct_counter_add:
  "distinct (map fst acc) \<Longrightarrow> distinct (map fst (counter_add acc t))"
proof (induction acc)
  case Nil
  then show ?case by simp
next
  case (Cons p acc)
  obtain u n where p: "p = (u, n)" by (cases p)
  from Cons show ?case
    using keys_counter_add [of acc t] by (auto simp: p)
qed

lemma map_of_foldl_counter_add:
  "map_of (foldl counter_add acc q) t =
     (if t \<in> set q then Some ((case map_of acc t of None \<Rightarrow> 0 | Some n \<Rightarrow> n) + count_list q t)
      else map_of acc t)"
proof (induction q arbitrary: acc)
  case Nil
  then show ?case by simp
next
  case (Cons x q)
  show ?case
    by (simp add: Cons.IH map_of_counter_add count_list_0_iff split: option.splits)
qed

lemma distinct_foldl_counter_add:
  "distinct (map fst acc) \<Longrightarrow> distinct (map fst (foldl counter_add acc q))"
  by (induction q arbitrary: acc) (simp_all add: distinct_counter_add)

lemma map_of_Counter:
  "map_of (Counter q) t = (if t \<in> set q then Some (count_list q t) else None)"
  by (simp add: Counter_def map_of_foldl_counter_add)

lemma distinct_Counter: "distinct (map fst (Counter q))"
  by (simp add: Counter_def distinct_foldl_counter_add)

lemma Counter_items:
  "(t, n) \<in> set (Counter q) \<longleftrightarrow> t \<in> set q \<and> n = count_list q t"
proof -
  have "(t, n) \<in> set (Counter q) \<longleftrightarrow> map_of (Counter q) t = Some n"
    by (rule map_of_eq_Some_iff [OF distinct_Counter, symmetric])
  then show ?thesis
    by (auto simp: map_of_Counter)
qed

section \<open>DocumentCollection statistics\<close>

text \<open>
  C5, as the specification states it, fails: a document without the field does not count 0,
  the lookup \<^verbatim>\<open>fields[field]\<close> raises KeyError. On a collection whose second document
  has no body the specification's sum is 1 and the code raises.
\<close>

theorem total_field_length_raises_on_missing_field:
  "total_field_length coll_missing_body ''body'' = Inl KeyError
   \<and> spec_total_field_length coll_missing_body ''body'' = 1"
  by (simp add: coll_missing_body_def spec_total_field_length_def field_length_or_zero_def)

text \<open>
  C5, amended: \<open>total_field_length\<close> returns the sum of the lengths of the field over all
  documents when every document has the field, and raises KeyError as soon as one
  document lacks it.
\<close>

theorem total_field_length_sum:
  "total_field_length coll field =
     (if all_have_field coll field then Inr (spec_total_field_length coll field)
      else Inl KeyError)"
  by (induction coll)
    (auto simp: all_have_field_def spec_total_field_length_def field_length_or_zero_def
          getitem_def split: option.splits)

theorem total_field_length_sum_witness:
  "all_have_field coll_ab ''body'' \<and> total_field_length coll_ab ''body'' = Inr 5"
  using total_field_length_sum [of coll_ab "''body''"]
  by (simp add: coll_ab_def all_have_field_def spec_total_field_length_def
      field_length_or_zero_def)

text \<open>
  C7: on an empty collection \<open>avg_field_length\<close> raises ZeroDivisionError; on a non-empty
  one it returns the total field length divided by the number of documents (and an
  exception of \<open>total_field_length\<close> is passed on).
\<close>

theorem avg_field_length_spec:
  "avg_field_length [] field = Inl ZeroDivisionError
   \<and> (coll \<noteq> [] \<longrightarrow>
        (\<forall>total. total_field_length coll field = Inr total \<longrightarrow>
           avg_field_length coll field = Inr (real total / real (length coll)))
      \<and> (\<forall>e. total_field_length coll field = Inl e \<longrightarrow> avg_field_length coll field = Inl e))"
  by (simp add: avg_field_length_def py_div_def)

theorem avg_field_length_spec_witness:
  "coll_ab \<noteq> [] \<and> total_field_length coll_ab ''body'' = Inr 5
   \<and> avg_field_length coll_ab ''body'' = Inr (5 / 2)"
  using avg_field_length_spec [of "''body''" coll_ab]
  by (simp add: coll_ab_def)

section \<open>The query loop\<close>

text \<open>
  C8: for every ranking model, every collection and every index, scoring the empty query
  succeeds and returns the empty score mapping.
\<close>

theorem score_collection_empty_query:
  "score_collection sc coll idx [] = Inr Map.empty"
  by (simp add: score_collection_def Counter_def)

section \<open>Additivity over query terms\<close>

lemma score_term_delta:
  "score_term sc coll idx t q s = Inr s' \<Longrightarrow>
   \<exists>u'. score_term sc coll idx t q u = Inr u'
     \<and> (\<forall>d. score_of u' d = score_of u d + (score_of s' d - score_of s d))"
proof (cases sc)
  case (ScorerLM field lam)
  assume "score_term sc coll idx t q s = Inr s'"
  then obtain P where P: "collection_prob coll field t = Inr P"
    and run: "score_docs (lm_body field lam t q P) coll s = Inr s'"
    by (auto simp: ScorerLM py_then_eq_Inr)
  from score_docs_delta [OF run, of u] P show ?thesis
    by (simp add: ScorerLM)
qed (simp_all add: score_docs_delta)

lemma Counter_two: "t1 \<noteq> t2 \<Longrightarrow> Counter [t1, t2] = [(t1, 1), (t2, 1)]"
  by (simp add: Counter_def)

lemma Counter_one: "Counter [t] = [(t, 1)]"
  by (simp add: Counter_def)

lemma score_of_empty: "score_of Map.empty d = 0"
  by (simp add: score_of_def)

text \<open>
  C9: for every ranking model and two distinct query terms, scoring \<open>[t1, t2]\<close> succeeds
  exactly when scoring \<open>[t1]\<close> and scoring \<open>[t2]\<close> both succeed, and then the score of every
  document for \<open>[t1, t2]\<close> is the sum of its scores for \<open>[t1]\<close> and for \<open>[t2]\<close>, a document
  missing from a mapping counting 0.
\<close>

theorem score_collection_additive:
  assumes "t1 \<noteq> t2"
  shows "((\<exists>s12. score_collection sc coll idx [t1, t2] = Inr s12)
            \<longleftrightarrow> (\<exists>s1 s2. score_collection sc coll idx [t1] = Inr s1
                         \<and> score_collection sc coll idx [t2] = Inr s2))
       \<and> (\<forall>s12 s1 s2 d.
             score_collection sc coll idx [t1, t2] = Inr s12
           \<longrightarrow> score_collection sc coll idx [t1] = Inr s1
           \<longrightarrow> score_collection sc coll idx [t2] = Inr s2
           \<longrightarrow> score_of s12 d = score_of s1 d + score_of s2 d)"
proof -
  have both: "score_collection sc coll idx [t1, t2] =
      py_then (score_term sc coll idx t1 1 Map.empty) (\<lambda>s1. score_term sc coll idx t2 1 s1)"
    using assms by (cases "score_term sc coll idx t1 1 Map.empty")
      (simp_all add: score_collection_def Counter_two py_then_def split: sum.splits)
  have one: "\<And>t. score_collection sc coll idx [t] = score_term sc coll idx t 1 Map.empty"
    by (simp add: score_collection_def Counter_one py_then_def split: sum.splits)
  have fwd: "\<exists>s2. score_term sc coll idx t2 1 Map.empty = Inr s2
                \<and> (\<forall>d. score_of s12 d = score_of s1 d + score_of s2 d)"
    if a: "score_term sc coll idx t1 1 Map.empty = Inr s1"
      and b: "score_term sc coll idx t2 1 s1 = Inr s12" for s1 s12
  proof -
    from score_term_delta [OF b, of Map.empty] obtain s2 where
      s2: "score_term sc coll idx t2 1 Map.empty = Inr s2"
      and v: "\<forall>d. score_of s2 d = score_of Map.empty d + (score_of s12 d - score_of s1 d)"
      by blast
    from v have "\<forall>d. score_of s12 d = score_of s1 d + score_of s2 d"
      by (simp add: score_of_empty)
    with s2 show ?thesis by blast
  qed
  have bwd: "\<exists>s12. score_term sc coll idx t2 1 s1 = Inr s12"
    if b: "score_term sc coll idx t2 1 Map.empty = Inr s2" for s1 s2
    using score_term_delta [OF b, of s1] by blast
  have iff: "(\<exists>s12. score_collection sc coll idx [t1, t2] = Inr s12)
            \<longleftrightarrow> (\<exists>s1 s2. score_collection sc coll idx [t1] = Inr s1
                         \<and> score_collection sc coll idx [t2] = Inr s2)"
    unfolding both one py_then_eq_Inr using fwd bwd by blast
  have val: "score_of s12 d = score_of s1 d + score_of s2 d"
    if "score_collection sc coll idx [t1, t2] = Inr s12"
      and "score_collection sc coll idx [t1] = Inr s1"
      and "score_collection sc coll idx [t2] = Inr s2" for s12 s1 s2 d
    using that fwd [of s1 s12] unfolding both one py_then_eq_Inr by auto
  from iff val show ?thesis by blast
qed

theorem score_collection_additive_witness:
  "''a'' \<noteq> ''b''
   \<and> score_collection (SimpleScorer ''body'') coll_ab index_ab [''a'', ''b'']
       = Inr [''d1'' \<mapsto> 3, ''d2'' \<mapsto> 2]
   \<and> score_collection (SimpleScorer ''body'') coll_ab index_ab [''a''] = Inr [''d1'' \<mapsto> 2]
   \<and> score_collection (SimpleScorer ''body'') coll_ab index_ab [''b'']
       = Inr [''d1'' \<mapsto> 1, ''d2'' \<mapsto> 2]
   \<and> score_of [''d1'' \<mapsto> 3, ''d2'' \<mapsto> 2] ''d1''
       = score_of [''d1'' \<mapsto> 2] ''d1'' + score_of [''d1'' \<mapsto> 1, ''d2'' \<mapsto> 2] ''d1''"
proof -
  have h0: "''a'' \<noteq> ''b''" by simp
  have h12: "score_collection (SimpleScorer ''body'') coll_ab index_ab [''a'', ''b'']
       = Inr [''d1'' \<mapsto> 3, ''d2'' \<mapsto> 2]"
    by (simp add: score_collection_def Counter_def coll_ab_def simple_body_def
        add_score_def score_of_def)
  have h1: "score_collection (SimpleScorer ''body'') coll_ab index_ab [''a'']
       = Inr [''d1'' \<mapsto> 2]"
    by (simp add: score_collection_def Counter_def coll_ab_def simple_body_def
        add_score_def score_of_def)
  have h2: "score_collection (SimpleScorer ''body'') coll_ab index_ab [''b'']
       = Inr [''d1'' \<mapsto> 1, ''d2'' \<mapsto> 2]"
    by (simp add: score_collection_def Counter_def coll_ab_def simple_body_def
        add_score_def score_of_def)
  note t = score_collection_additive [OF h0, of "SimpleScorer ''body''" coll_ab index_ab,
      THEN conjunct2, rule_format, OF h12 h1 h2, of "''d1''"]
  show ?thesis
    by (intro conjI h0 h12 h1 h2 t)
qed

section \<open>The term-count model\<close>

lemma all_have_fieldD:
  "all_have_field coll field \<Longrightarrow> (d, doc) \<in> set coll \<Longrightarrow> \<exists>ts. doc field = Some ts"
  by (auto simp: all_have_field_def list_all_iff)

lemma simple_body_Inr:
  "simple_body field t q doc = Inr r \<longleftrightarrow>
     (\<exists>ts. doc field = Some ts
        \<and> r = (if t \<in> set ts then Some (real (count_list ts t * q)) else None))"
  by (auto simp: simple_body_def py_then_eq_Inr getitem_eq_Inr)

lemma simple_term_at:
  assumes "distinct (map fst coll)" and "(d, doc) \<in> set coll" and "doc field = Some ts"
    and "score_term (SimpleScorer field) coll idx t n s = Inr s'"
  shows "s' d = (if t \<in> set ts then Some (score_of s d + real (count_list ts t * n))
                 else s d)"
proof -
  from assms(4) have run: "score_docs (simple_body field t n) coll s = Inr s'" by simp
  from assms(3) have
    "simple_body field t n doc
       = Inr (if t \<in> set ts then Some (real (count_list ts t * n)) else None)"
    by (simp add: simple_body_Inr)
  from score_docs_at [OF assms(1,2) run this] show ?thesis by simp
qed

lemma simple_term_succeeds:
  assumes "all_have_field coll field"
  shows "\<exists>s'. score_term (SimpleScorer field) coll idx t n s = Inr s'"
proof -
  have "\<And>d doc. (d, doc) \<in> set coll \<Longrightarrow> \<exists>r. simple_body field t n doc = Inr r"
    using assms by (auto simp: simple_body_Inr dest: all_have_fieldD)
  then show ?thesis by (simp add: score_docs_succeeds)
qed

lemma simple_terms_succeed:
  assumes "all_have_field coll field"
  shows "\<exists>s'. score_terms (SimpleScorer field) coll idx cs s = Inr s'"
proof (induction cs arbitrary: s)
  case Nil
  then show ?case by simp
next
  case (Cons c cs)
  obtain t n where c: "c = (t, n)" by (cases c)
  from simple_term_succeeds [OF assms, of idx t n s] obtain s1 where
    "score_term (SimpleScorer field) coll idx t n s = Inr s1" by blast
  with Cons.IH [of s1] show ?case by (simp add: c)
qed

lemma term_products_none:
  "\<forall>p\<in>set cs. fst p \<notin> set ts \<Longrightarrow> term_products ts cs = 0"
  by (induction cs) (auto simp: term_products_def)

lemma simple_terms_at:
  assumes "distinct (map fst coll)" and "(d, doc) \<in> set coll" and "doc field = Some ts"
  shows "score_terms (SimpleScorer field) coll idx cs s = Inr s' \<Longrightarrow>
     s' d = (if \<exists>p\<in>set cs. fst p \<in> set ts then Some (score_of s d + term_products ts cs)
             else s d)"
proof (induction cs arbitrary: s)
  case Nil
  then show ?case by simp
next
  case (Cons c cs)
  obtain t n where c: "c = (t, n)" by (cases c)
  from Cons.prems obtain s1 where
    step: "score_term (SimpleScorer field) coll idx t n s = Inr s1"
    and rest: "score_terms (SimpleScorer field) coll idx cs s1 = Inr s'"
    by (auto simp: c py_then_eq_Inr)
  note s1 = simple_term_at [OF assms step]
  note ih = Cons.IH [OF rest]
  have prod:
    "term_products ts ((t, n) # cs) = real (count_list ts t * n) + term_products ts cs"
    by (simp add: term_products_def)
  show ?case
  proof (cases "t \<in> set ts")
    case True
    with s1 have v: "score_of s1 d = score_of s d + real (count_list ts t * n)"
      and e: "s1 d = Some (score_of s d + real (count_list ts t * n))"
      by (simp_all add: score_of_def)
    show ?thesis
    proof (cases "\<exists>p\<in>set cs. fst p \<in> set ts")
      case True
      with ih v \<open>t \<in> set ts\<close> show ?thesis by (simp add: c prod add.assoc)
    next
      case False
      then have "term_products ts cs = 0"
        by (intro term_products_none) simp
      with ih e False \<open>t \<in> set ts\<close> show ?thesis by (simp add: c prod)
    qed
  next
    case False
    with s1 have "s1 d = s d" and "score_of s1 d = score_of s d"
      by (simp_all add: score_of_def)
    with ih False show ?thesis by (simp add: c prod)
  qed
qed

lemma distinct_Counter_items: "distinct (Counter q)"
  using distinct_Counter [of q] by (simp add: distinct_map)

lemma set_Counter: "set (Counter q) = (\<lambda>t. (t, count_list q t)) ` set q"
  by (auto simp: Counter_items)

lemma term_products_Counter:
  "term_products ts (Counter q) = (\<Sum>t\<in>set q. real (count_list ts t * count_list q t))"
proof -
  have "term_products ts (Counter q)
      = sum (\<lambda>(t, n). real (count_list ts t * n)) (set (Counter q))"
    unfolding term_products_def
    by (rule sum_list_distinct_conv_sum_set [OF distinct_Counter_items])
  also have "\<dots> = sum ((\<lambda>(t, n). real (count_list ts t * n)) \<circ> (\<lambda>t. (t, count_list q t)))
      (set q)"
    unfolding set_Counter by (rule sum.reindex) (simp add: inj_on_def)
  finally show ?thesis by (simp add: comp_def)
qed

lemma simple_collection_at:
  assumes "wf_collection coll" and "(d, doc) \<in> set coll" and "doc field = Some ts"
    and "score_collection (SimpleScorer field) coll idx query = Inr result"
  shows "result d = (if set query \<inter> set ts = {} then None
           else Some (\<Sum>t\<in>set query. real (count_list ts t * count_list query t)))"
proof -
  from assms(1) have dist: "distinct (map fst coll)" by (simp add: wf_collection_def)
  from assms(4) have
    run: "score_terms (SimpleScorer field) coll idx (Counter query) Map.empty = Inr result"
    by (simp add: score_collection_def)
  have "(\<exists>p\<in>set (Counter query). fst p \<in> set ts) \<longleftrightarrow> set query \<inter> set ts \<noteq> {}"
    by (auto simp: set_Counter)
  with simple_terms_at [OF dist assms(2,3) run] show ?thesis
    by (simp add: term_products_Counter score_of_def)
qed

text \<open>
  C4: when every document has the field, \<open>score_term\<close> and \<open>score_collection\<close> of the
  term-count model succeed. One call of \<open>score_term\<close> gives a document holding the term
  \<open>k\<close> times exactly \<open>k * q\<close> for the query frequency \<open>q\<close> and leaves a document without
  the term untouched. The query loop calls \<open>score_term\<close> once per distinct query term, with
  the number of its occurrences in the query, so that \<open>score_collection\<close> gives a document
  the sum, over the distinct query terms, of the term's count in the document times its
  count in the query, and leaves a document that holds no query term out of the mapping.
  On the specification's scenario the query \<open>[a, a]\<close> scores \<open>d1\<close> with 4 and leaves \<open>d2\<close>
  out.
\<close>

theorem simple_scorer_contribution:
  "(all_have_field coll field \<longrightarrow>
      (\<exists>s'. score_term (SimpleScorer field) coll idx t q s = Inr s'))
   \<and> (wf_collection coll \<and> (doc_id, doc) \<in> set coll
        \<and> score_term (SimpleScorer field) coll idx t q s = Inr s' \<longrightarrow>
      (\<exists>ts. doc field = Some ts
         \<and> (if t \<in> set ts
            then s' doc_id = Some (score_of s doc_id + real (count_list ts t) * real q)
            else s' doc_id = s doc_id)))
   \<and> (distinct (map fst (Counter query))
      \<and> ((t, q) \<in> set (Counter query) \<longleftrightarrow> t \<in> set query \<and> q = count_list query t))
   \<and> (all_have_field coll field \<longrightarrow>
      (\<exists>result. score_collection (SimpleScorer field) coll idx query = Inr result))
   \<and> (wf_collection coll \<and> (doc_id, doc) \<in> set coll \<and> doc field = Some ts
        \<and> score_collection (SimpleScorer field) coll idx query = Inr result \<longrightarrow>
      result doc_id =
        (if set query \<inter> set ts = {} then None
         else Some (\<Sum>t\<in>set query. real (count_list ts t) * real (count_list query t))))
   \<and> score_collection (SimpleScorer ''body'') coll_ab index_ab [''a'', ''a'']
       = Inr [''d1'' \<mapsto> 4]"
proof (intro conjI impI)
  assume "all_have_field coll field"
  then show "\<exists>s'. score_term (SimpleScorer field) coll idx t q s = Inr s'"
    by (rule simple_term_succeeds)
next
  assume a: "wf_collection coll \<and> (doc_id, doc) \<in> set coll
    \<and> score_term (SimpleScorer field) coll idx t q s = Inr s'"
  then have run: "score_docs (simple_body field t q) coll s = Inr s'"
    and mem: "(doc_id, doc) \<in> set coll" and dist: "distinct (map fst coll)"
    by (simp_all add: wf_collection_def)
  from score_docs_bodies [OF run mem] obtain r ts where
    r: "simple_body field t q doc = Inr r" and ts: "doc field = Some ts"
    and rv: "r = (if t \<in> set ts then Some (real (count_list ts t * q)) else None)"
    by (auto simp: simple_body_Inr)
  from score_docs_at [OF dist mem run r] rv ts
  show "\<exists>ts. doc field = Some ts
         \<and> (if t \<in> set ts
            then s' doc_id = Some (score_of s doc_id + real (count_list ts t) * real q)
            else s' doc_id = s doc_id)"
    by auto
next
  show "distinct (map fst (Counter query))" by (rule distinct_Counter)
next
  show "(t, q) \<in> set (Counter query) \<longleftrightarrow> t \<in> set query \<and> q = count_list query t"
    by (rule Counter_items)
next
  assume "all_have_field coll field"
  from simple_terms_succeed [OF this]
  show "\<exists>result. score_collection (SimpleScorer field) coll idx query = Inr result"
    by (simp add: score_collection_def)
next
  assume "wf_collection coll \<and> (doc_id, doc) \<in> set coll \<and> doc field = Some ts
        \<and> score_collection (SimpleScorer field) coll idx query = Inr result"
  then show "result doc_id =
        (if set query \<inter> set ts = {} then None
         else Some (\<Sum>t\<in>set query. real (count_list ts t) * real (count_list query t)))"
    using simple_collection_at [of coll doc_id doc field ts idx query result] by simp
next
  show "score_collection (SimpleScorer ''body'') coll_ab index_ab [''a'', ''a'']
       = Inr [''d1'' \<mapsto> 4]"
    by (simp add: score_collection_def Counter_def coll_ab_def simple_body_def
        add_score_def score_of_def)
qed

theorem simple_scorer_contribution_witness:
  "all_have_field coll_ab ''body'' \<and> wf_collection coll_ab
   \<and> (''d1'', [''body'' \<mapsto> [''a'', ''b'', ''a'']]) \<in> set coll_ab
   \<and> score_term (SimpleScorer ''body'') coll_ab index_ab ''a'' 2 Map.empty = Inr [''d1'' \<mapsto> 4]
   \<and> (''a'', 2) \<in> set (Counter [''a'', ''a''])
   \<and> (\<exists>ts. [''body'' \<mapsto> [''a'', ''b'', ''a'']] ''body'' = Some ts
        \<and> (if ''a'' \<in> set ts
           then [''d1'' \<mapsto> 4::real] ''d1''
                = Some (score_of Map.empty ''d1'' + real (count_list ts ''a'') * real 2)
           else [''d1'' \<mapsto> 4::real] ''d1'' = Map.empty ''d1''))
   \<and> [''body'' \<mapsto> [''a'', ''b'', ''a'']] ''body'' = Some [''a'', ''b'', ''a'']
   \<and> score_collection (SimpleScorer ''body'') coll_ab index_ab [''a'', ''b'']
       = Inr [''d1'' \<mapsto> 3, ''d2'' \<mapsto> 2]
   \<and> [''d1'' \<mapsto> 3::real, ''d2'' \<mapsto> 2] ''d1'' =
        (if set [''a'', ''b''] \<inter> set [''a'', ''b'', ''a''] = {} then None
         else Some (\<Sum>t\<in>set [''a'', ''b''].
                real (count_list [''a'', ''b'', ''a''] t) * real (count_list [''a'', ''b''] t)))"
proof -
  have h1: "all_have_field coll_ab ''body''"
    by (simp add: coll_ab_def all_have_field_def)
  have h2: "wf_collection coll_ab"
    by (simp add: coll_ab_def wf_collection_def)
  have h3: "(''d1'', [''body'' \<mapsto> [''a'', ''b'', ''a'']]) \<in> set coll_ab"
    by (simp add: coll_ab_def)
  have h4: "score_term (SimpleScorer ''body'') coll_ab index_ab ''a'' 2 Map.empty
              = Inr [''d1'' \<mapsto> 4]"
    by (simp add: coll_ab_def simple_body_def add_score_def score_of_def)
  have h5: "(''a'', 2) \<in> set (Counter [''a'', ''a''])"
    by (simp add: Counter_def)
  have h6: "[''body'' \<mapsto> [''a'', ''b'', ''a'']] ''body'' = Some [''a'', ''b'', ''a'']"
    by simp
  have h7: "score_collection (SimpleScorer ''body'') coll_ab index_ab [''a'', ''b'']
       = Inr [''d1'' \<mapsto> 3, ''d2'' \<mapsto> 2]"
    by (simp add: score_collection_def Counter_def coll_ab_def simple_body_def
        add_score_def score_of_def)
  note t = simple_scorer_contribution
    [where coll = coll_ab and field = "''body''" and idx = index_ab and t = "''a''"
      and q = 2 and s = Map.empty and doc_id = "''d1''"
      and doc = "[''body'' \<mapsto> [''a'', ''b'', ''a'']]" and s' = "[''d1'' \<mapsto> 4]"
      and query = "[''a'', ''a'']"]
  have c:
    "\<exists>ts. [''body'' \<mapsto> [''a'', ''b'', ''a'']] ''body'' = Some ts
        \<and> (if ''a'' \<in> set ts
           then [''d1'' \<mapsto> 4::real] ''d1''
                = Some (score_of Map.empty ''d1'' + real (count_list ts ''a'') * real 2)
           else [''d1'' \<mapsto> 4::real] ''d1'' = Map.empty ''d1'')"
    by (rule mp [OF t [THEN conjunct2, THEN conjunct1] conjI [OF h2 conjI [OF h3 h4]]])
  note u = simple_scorer_contribution
    [where coll = coll_ab and field = "''body''" and idx = index_ab and doc_id = "''d1''"
      and doc = "[''body'' \<mapsto> [''a'', ''b'', ''a'']]" and query = "[''a'', ''b'']"
      and ts = "[''a'', ''b'', ''a'']" and result = "[''d1'' \<mapsto> 3, ''d2'' \<mapsto> 2]"]
  have d: "[''d1'' \<mapsto> 3::real, ''d2'' \<mapsto> 2] ''d1'' =
        (if set [''a'', ''b''] \<inter> set [''a'', ''b'', ''a''] = {} then None
         else Some (\<Sum>t\<in>set [''a'', ''b''].
                real (count_list [''a'', ''b'', ''a''] t) * real (count_list [''a'', ''b''] t)))"
    by (rule mp [OF u [THEN conjunct2, THEN conjunct2, THEN conjunct2, THEN conjunct2,
            THEN conjunct1]
          conjI [OF h2 conjI [OF h3 conjI [OF h6 h7]]]])
  show ?thesis by (intro conjI h1 h2 h3 h4 h5 c h6 h7 d)
qed

section \<open>BM25\<close>

lemma bm25_body_holds_term:
  assumes "bm25_body coll idx field b k1 term doc = Inr r"
    and "doc field = Some ts" and "term \<in> set ts"
  shows "\<exists>postings holders avg.
           idx field = Some postings \<and> postings term = Some holders
         \<and> avg_field_length coll field = Inr avg
         \<and> r = Some (real (count_list ts term) * (1 + k1)
                      / (real (count_list ts term)
                          + k1 * (1 - b + b * (real (length ts) / avg)))
                     * ln (real (length coll) / real (length holders)))"
  using assms
  by (auto simp: bm25_body_def py_then_eq_Inr getitem_eq_Inr py_div_def py_log_def Let_def
      split: if_splits)

text \<open>
  C1: for a document whose field holds the term, \<open>ScorerBM25.score_term\<close> adds
  \<open>tf * (1 + k1) / (tf + k1 * (1 - b + b * (field_length / avg_field_length))) * ln (N / df)\<close>
  to the document's score, where \<open>tf\<close> counts the term in the document's field, \<open>N\<close> is the
  size of the collection and \<open>df\<close> the length of the posting list the index holds for the
  field and the term. The query frequency plays no part: every query frequency gives the
  same accumulator.
\<close>

theorem bm25_contribution:
  assumes "wf_collection coll" and "(doc_id, doc) \<in> set coll"
    and "doc field = Some ts" and "term \<in> set ts"
    and "score_term (ScorerBM25 field b k1) coll idx term query_freq s = Inr s'"
  shows "\<exists>postings holders avg.
           idx field = Some postings \<and> postings term = Some holders
         \<and> avg_field_length coll field = Inr avg
         \<and> s' doc_id = Some (score_of s doc_id
              + real (count_list ts term) * (1 + k1)
                  / (real (count_list ts term)
                      + k1 * (1 - b + b * (real (length ts) / avg)))
                * ln (real (length coll) / real (length holders)))
         \<and> (\<forall>q. score_term (ScorerBM25 field b k1) coll idx term q s = Inr s')"
proof -
  from assms(5) have run: "score_docs (bm25_body coll idx field b k1 term) coll s = Inr s'"
    by simp
  from assms(1) have dist: "distinct (map fst coll)"
    by (simp add: wf_collection_def)
  from score_docs_bodies [OF run assms(2)] obtain r where
    r: "bm25_body coll idx field b k1 term doc = Inr r" by blast
  from bm25_body_holds_term [OF r assms(3,4)] obtain postings holders avg where
    idx: "idx field = Some postings" "postings term = Some holders"
    and avg: "avg_field_length coll field = Inr avg"
    and rv: "r = Some (real (count_list ts term) * (1 + k1)
                      / (real (count_list ts term)
                          + k1 * (1 - b + b * (real (length ts) / avg)))
                     * ln (real (length coll) / real (length holders)))"
    by blast
  from score_docs_at [OF dist assms(2) run r] rv
  have "s' doc_id = Some (score_of s doc_id
              + real (count_list ts term) * (1 + k1)
                  / (real (count_list ts term)
                      + k1 * (1 - b + b * (real (length ts) / avg)))
                * ln (real (length coll) / real (length holders)))"
    by simp
  moreover have "\<forall>q. score_term (ScorerBM25 field b k1) coll idx term q s = Inr s'"
    using run by simp
  ultimately show ?thesis using idx avg by blast
qed

theorem bm25_contribution_witness:
  "wf_collection coll_ab
   \<and> (''d1'', [''body'' \<mapsto> [''a'', ''b'', ''a'']]) \<in> set coll_ab
   \<and> [''body'' \<mapsto> [''a'', ''b'', ''a'']] ''body'' = Some [''a'', ''b'', ''a'']
   \<and> ''a'' \<in> set [''a'', ''b'', ''a'']
   \<and> score_term (ScorerBM25 ''body'' (3/4) (6/5)) coll_ab index_ab ''a'' 1 Map.empty
        = Inr [''d1'' \<mapsto> 220 / 169 * ln 2]
   \<and> (\<exists>postings holders avg.
           index_ab ''body'' = Some postings \<and> postings ''a'' = Some holders
         \<and> avg_field_length coll_ab ''body'' = Inr avg
         \<and> [''d1'' \<mapsto> 220 / 169 * ln 2] ''d1'' = Some (score_of Map.empty ''d1''
              + real (count_list [''a'', ''b'', ''a''] ''a'') * (1 + 6/5)
                  / (real (count_list [''a'', ''b'', ''a''] ''a'')
                      + 6/5 * (1 - 3/4 + 3/4 * (real (length [''a'', ''b'', ''a'']) / avg)))
                * ln (real (length coll_ab) / real (length holders)))
         \<and> (\<forall>q. score_term (ScorerBM25 ''body'' (3/4) (6/5)) coll_ab index_ab ''a'' q Map.empty
                = Inr [''d1'' \<mapsto> 220 / 169 * ln 2]))"
proof -
  have h1: "wf_collection coll_ab"
    by (simp add: coll_ab_def wf_collection_def)
  have h2: "(''d1'', [''body'' \<mapsto> [''a'', ''b'', ''a'']]) \<in> set coll_ab"
    by (simp add: coll_ab_def)
  have h3: "[''body'' \<mapsto> [''a'', ''b'', ''a'']] ''body'' = Some [''a'', ''b'', ''a'']"
    by simp
  have h4: "''a'' \<in> set [''a'', ''b'', ''a'']"
    by simp
  have h5: "score_term (ScorerBM25 ''body'' (3/4) (6/5)) coll_ab index_ab ''a'' 1 Map.empty
        = Inr [''d1'' \<mapsto> 220 / 169 * ln 2]"
    by (simp add: coll_ab_def index_ab_def bm25_body_def avg_field_length_def py_div_def
        py_log_def add_score_def score_of_def Let_def)
  show ?thesis
    by (intro conjI h1 h2 h3 h4 h5 bm25_contribution [OF h1 h2 h3 h4 h5])
qed

section \<open>Documents without the configured field\<close>

lemma total_field_length_cases:
  "total_field_length coll field =
     (if all_have_field coll field then Inr (spec_total_field_length coll field)
      else Inl KeyError)"
  by (induction coll)
    (auto simp: all_have_field_def spec_total_field_length_def field_length_or_zero_def
          getitem_def split: option.splits)

lemma avg_field_length_missing:
  "\<not> all_have_field coll field \<Longrightarrow> avg_field_length coll field = Inl KeyError"
  by (simp add: avg_field_length_def total_field_length_cases)

lemma total_term_count_missing:
  "\<not> all_have_field coll field \<Longrightarrow> total_term_count coll field term = Inl KeyError"
  by (induction coll)
    (auto simp: all_have_field_def getitem_def split: option.splits)

lemma missing_field_doc:
  "\<not> all_have_field coll field \<Longrightarrow> \<exists>d doc. (d, doc) \<in> set coll \<and> doc field = None"
  by (auto simp: all_have_field_def list_all_iff) blast

lemma score_docs_error_in:
  assumes "(d0, doc0) \<in> set coll" and "body doc0 = Inl e0"
    and "\<And>d doc e. (d, doc) \<in> set coll \<Longrightarrow> body doc = Inl e \<Longrightarrow> e \<in> E"
  shows "\<exists>e\<in>E. score_docs body coll s = Inl e"
  using assms
proof (induction coll arbitrary: s)
  case Nil
  then show ?case by simp
next
  case (Cons p coll)
  obtain d doc where p: "p = (d, doc)" by (cases p)
  show ?case
  proof (cases "body doc")
    case (Inl e)
    with Cons.prems(3) [of d doc e] show ?thesis by (simp add: p)
  next
    case (Inr r)
    with Cons.prems(1,2) have mem: "(d0, doc0) \<in> set coll" by (auto simp: p)
    have sub: "\<And>d doc e. (d, doc) \<in> set coll \<Longrightarrow> body doc = Inl e \<Longrightarrow> e \<in> E"
      using Cons.prems(3) by (auto simp: p)
    have "\<And>s. \<exists>e\<in>E. score_docs body coll s = Inl e"
      by (rule Cons.IH [OF mem Cons.prems(2) sub])
    with Inr show ?thesis by (cases r) (simp_all add: p)
  qed
qed

lemma Counter_head_aux:
  "\<exists>n rest. foldl counter_add ((t, m) # acc) ts = (t, n) # rest"
  by (induction ts arbitrary: m acc) auto

lemma Counter_head: "\<exists>n rest. Counter (t # ts) = (t, n) # rest"
  by (simp add: Counter_def Counter_head_aux)

lemma score_collection_first_term:
  assumes "\<And>q s. score_term sc coll idx t q s = Inl e"
  shows "score_collection sc coll idx (t # ts) = Inl e"
proof -
  from Counter_head [of t ts] obtain n rest where "Counter (t # ts) = (t, n) # rest"
    by blast
  with assms show ?thesis by (simp add: score_collection_def)
qed

lemma simple_body_error: "simple_body field t q doc = Inl e \<Longrightarrow> e = KeyError"
  by (auto simp: simple_body_def py_then_def getitem_def split: option.splits if_splits)

lemma simple_body_missing: "doc field = None \<Longrightarrow> simple_body field t q doc = Inl KeyError"
  by (simp add: simple_body_def)

lemma bm25_body_missing:
  "doc field = None \<Longrightarrow> bm25_body coll idx field b k1 t doc = Inl KeyError"
  by (simp add: bm25_body_def)

lemma bm25_body_error:
  assumes "\<not> all_have_field coll field"
    and "bm25_body coll idx field b k1 t doc = Inl e"
  shows "e = KeyError \<or> e = ZeroDivisionError"
    and "posting_nonempty idx field t \<Longrightarrow> e = KeyError"
proof -
  from assms(1) have ne: "coll \<noteq> []" by (auto simp: all_have_field_def)
  from assms(2) show "e = KeyError \<or> e = ZeroDivisionError"
    using ne
    by (auto simp: bm25_body_def py_then_def getitem_def py_div_def py_log_def Let_def
        avg_field_length_missing [OF assms(1)] divide_le_0_iff
        split: option.splits if_splits sum.splits)
  assume "posting_nonempty idx field t"
  with assms(2) show "e = KeyError"
    using ne
    by (auto simp: bm25_body_def py_then_def getitem_def py_div_def py_log_def Let_def
        avg_field_length_missing [OF assms(1)] divide_le_0_iff posting_nonempty_def
        split: option.splits if_splits sum.splits)
qed

text \<open>
  The index contract matters for ScorerBM25: when the index holds an empty posting list
  for a term that the first document holds,
  \<^verbatim>\<open>len(self.collection) / len(self.index[field][term])\<close> raises ZeroDivisionError before
  the loop reaches the document without the field.
\<close>

lemma bm25_empty_posting_zero_division:
  "\<not> all_have_field coll_missing_body ''body''
   \<and> score_collection (ScorerBM25 ''body'' (3/4) (6/5)) coll_missing_body index_empty_posting
        [''a''] = Inl ZeroDivisionError"
  by (simp add: all_have_field_def coll_missing_body_def index_empty_posting_def
      score_collection_def Counter_def bm25_body_def py_div_def)

text \<open>ScorerLM computes the collection probability first, also on an empty collection.\<close>

lemma lm_empty_collection_raises:
  "score_collection (ScorerLM field lam) [] idx (t # ts) = Inl ZeroDivisionError"
  by (rule score_collection_first_term) (simp add: collection_prob_def py_div_def)

lemma index_lists_holdersD:
  "index_lists_holders coll idx field \<Longrightarrow> (d, doc) \<in> set coll \<Longrightarrow> doc field = Some ts
   \<Longrightarrow> t \<in> set ts \<Longrightarrow> posting_nonempty idx field t"
  by (auto simp: index_lists_holders_def list_all_iff)

lemma bm25_body_key_error:
  assumes "\<not> all_have_field coll field" and "index_lists_holders coll idx field"
    and "(d, doc) \<in> set coll" and "bm25_body coll idx field b k1 t doc = Inl e"
  shows "e = KeyError"
proof (cases "doc field")
  case None
  with assms(4) show ?thesis by (simp add: bm25_body_def)
next
  case (Some ts)
  with assms(4) have "t \<in> set ts"
    by (auto simp: bm25_body_def split: if_splits)
  from index_lists_holdersD [OF assms(2,3) Some this]
  show ?thesis by (rule bm25_body_error(2) [OF assms(1,4)])
qed

text \<open>
  C10: let some document of the collection lack the configured field, and let the index
  keep its contract with the collection (no empty posting list for a term that a document
  holds in the field). Then \<open>score_collection\<close> of each single-field scorer (SimpleScorer,
  ScorerBM25, ScorerLM) raises KeyError for every non-empty query, whether or not a query
  term occurs in a document.
\<close>

theorem single_field_scorers_raise:
  assumes "\<not> all_have_field coll field" and "index_lists_holders coll idx field"
  shows "score_collection (SimpleScorer field) coll idx (t # ts) = Inl KeyError
       \<and> score_collection (ScorerBM25 field b k1) coll idx (t # ts) = Inl KeyError
       \<and> score_collection (ScorerLM field lam) coll idx (t # ts) = Inl KeyError"
proof -
  from missing_field_doc [OF assms(1)] obtain d0 doc0 where
    mem: "(d0, doc0) \<in> set coll" and none: "doc0 field = None" by blast
  have simple: "score_term (SimpleScorer field) coll idx t q s = Inl KeyError" for q s
    using score_docs_error_in
      [where body = "simple_body field t q" and E = "{KeyError}" and s = s,
        OF mem simple_body_missing [of doc0 field t q, OF none]]
    by (auto dest: simple_body_error)
  have lm: "score_term (ScorerLM field lam) coll idx t q s = Inl KeyError" for q s
    by (simp add: collection_prob_def total_term_count_missing [OF assms(1)])
  have bm: "score_term (ScorerBM25 field b k1) coll idx t q s = Inl KeyError" for q s
    using score_docs_error_in
      [where body = "bm25_body coll idx field b k1 t" and E = "{KeyError}" and s = s,
        OF mem bm25_body_missing [of doc0 field coll idx b k1 t, OF none]]
      bm25_body_key_error [OF assms] by auto
  from simple lm bm show ?thesis
    by (simp add: score_collection_first_term)
qed

theorem single_field_scorers_raise_witness:
  "\<not> all_have_field coll_missing_body ''body''
   \<and> index_lists_holders coll_missing_body index_ab ''body''
   \<and> score_collection (SimpleScorer ''body'') coll_missing_body index_ab [''a''] = Inl KeyError
   \<and> score_collection (ScorerBM25 ''body'' (3/4) (6/5)) coll_missing_body index_ab [''a'']
       = Inl KeyError
   \<and> score_collection (ScorerLM ''body'' (1/10)) coll_missing_body index_ab [''a'']
       = Inl KeyError"
proof -
  have h: "\<not> all_have_field coll_missing_body ''body''"
    by (simp add: all_have_field_def coll_missing_body_def)
  have c: "index_lists_holders coll_missing_body index_ab ''body''"
    by (simp add: index_lists_holders_def posting_nonempty_def coll_missing_body_def
        index_ab_def)
  note t = single_field_scorers_raise [OF h c, of "''a''" "[]" "3/4" "6/5" "1/10"]
  show ?thesis
    by (intro conjI h c t [THEN conjunct1] t [THEN conjunct2, THEN conjunct1]
        t [THEN conjunct2, THEN conjunct2])
qed

section \<open>BM25F\<close>

lemma bm25f_fields_fails:
  "(i, f) \<in> set fl \<Longrightarrow> avg_field_length coll f = Inl e0
   \<Longrightarrow> \<exists>e. bm25f_fields coll idx ws bi t doc fl st = Inl e"
proof (induction fl arbitrary: st)
  case Nil
  then show ?case by simp
next
  case (Cons p fl)
  obtain j g where p: "p = (j, g)" by (cases p)
  obtain c idf where st: "st = (c, idf)" by (cases st)
  show ?case
  proof (cases "(i, f) = (j, g)")
    case True
    with Cons.prems(2) show ?thesis
      by (auto simp: p st py_then_def split: sum.splits)
  next
    case False
    with Cons.prems(1) have "(i, f) \<in> set fl" by (auto simp: p)
    from Cons.IH [OF this Cons.prems(2)]
    have "\<And>st. \<exists>e. bm25f_fields coll idx ws bi t doc fl st = Inl e" .
    then show ?thesis
      by (auto simp: p st py_then_def Let_def split: sum.splits)
  qed
qed

lemma in_set_enumerate_0:
  assumes "f \<in> set fields"
  shows "\<exists>i. (i, f) \<in> set (enumerate 0 fields)"
proof -
  from assms have "f \<in> set (map snd (enumerate 0 fields))" by simp
  then have "f \<in> snd ` set (enumerate 0 fields)" unfolding set_map .
  then show ?thesis by force
qed

lemma bm25f_body_fails:
  assumes "f \<in> set fields" and "\<not> all_have_field coll f"
  shows "\<exists>e. bm25f_body coll idx fields ws bi k1 t doc = Inl e"
proof -
  from in_set_enumerate_0 [OF assms(1)] obtain i where
    i: "(i, f) \<in> set (enumerate 0 fields)" by blast
  from bm25f_fields_fails [OF i avg_field_length_missing [OF assms(2)]]
  obtain e where "bm25f_fields coll idx ws bi t doc (enumerate 0 fields) (0, 0) = Inl e"
    by blast
  then show ?thesis by (simp add: bm25f_body_def)
qed

lemma bm25f_body_not_None:
  "bm25f_body coll idx fields ws bi k1 t doc = Inr r \<Longrightarrow> r \<noteq> None"
  by (auto simp: bm25f_body_def py_then_eq_Inr split: prod.splits)

lemma bm25f_raises_without_field:
  assumes "f \<in> set fields" and "\<not> all_have_field coll f"
  shows "\<exists>e. score_term (ScorerBM25F fields ws bi k1) coll idx t q s = Inl e"
proof -
  from assms(2) obtain d0 doc0 rest where coll: "coll = (d0, doc0) # rest"
    by (cases coll) (auto simp: all_have_field_def)
  from bm25f_body_fails [OF assms] obtain e where
    "bm25f_body coll idx fields ws bi k1 t doc0 = Inl e" by blast
  then have "score_docs (bm25f_body coll idx fields ws bi k1 t) ((d0, doc0) # rest) s = Inl e"
    by simp
  then show ?thesis by (simp add: coll [symmetric])
qed

text \<open>
  C6, as stated, fails: a configured field that a document lacks does not count 0. With
  the fields title and body and a second document without a title, the first pass of
  the loop already raises KeyError (in \<open>avg_field_length\<close> for the title).
\<close>

theorem bm25f_title_missing_raises:
  "score_term (ScorerBM25F [''title'', ''body''] [1/5, 4/5] [3/4, 3/4] (6/5))
     coll_missing_title index_ab ''a'' 1 Map.empty = Inl KeyError"
  by (simp add: coll_missing_title_def bm25f_body_def list_getitem_def
      avg_field_length_def)

text \<open>
  C6, amended: \<open>ScorerBM25F.score_term\<close> loops over every document of the collection with
  no guard on the term. When it succeeds, every document has every configured field and
  every document of the collection has an entry in the score mapping. When some document
  lacks a configured field, the call raises.
\<close>

theorem bm25f_every_document:
  "(score_term (ScorerBM25F fields ws bi k1) coll idx t q s = Inr s' \<longrightarrow>
      fst ` set coll \<subseteq> dom s' \<and> (\<forall>f\<in>set fields. all_have_field coll f))
   \<and> ((\<exists>f\<in>set fields. \<not> all_have_field coll f) \<longrightarrow>
      (\<exists>e. score_term (ScorerBM25F fields ws bi k1) coll idx t q s = Inl e))"
proof (intro conjI impI)
  assume run: "score_term (ScorerBM25F fields ws bi k1) coll idx t q s = Inr s'"
  then have "score_docs (bm25f_body coll idx fields ws bi k1 t) coll s = Inr s'" by simp
  from score_docs_dom [OF bm25f_body_not_None this]
  show "fst ` set coll \<subseteq> dom s'" by simp
  show "\<forall>f\<in>set fields. all_have_field coll f"
  proof (rule ccontr)
    assume "\<not> (\<forall>f\<in>set fields. all_have_field coll f)"
    then obtain f where "f \<in> set fields" "\<not> all_have_field coll f" by blast
    from bm25f_raises_without_field [OF this, of ws bi k1 idx t q s] run
    show False by auto
  qed
next
  assume "\<exists>f\<in>set fields. \<not> all_have_field coll f"
  then obtain f where "f \<in> set fields" "\<not> all_have_field coll f" by blast
  then show "\<exists>e. score_term (ScorerBM25F fields ws bi k1) coll idx t q s = Inl e"
    by (rule bm25f_raises_without_field)
qed

theorem bm25f_every_document_witness:
  "score_term (ScorerBM25F [''body''] [1] [3/4] (6/5)) coll_ab index_ab ''a'' 1 Map.empty
     = Inr [''d1'' \<mapsto> 100 / 169 * ln 2, ''d2'' \<mapsto> 0]
   \<and> ''d2'' \<in> dom [''d1'' \<mapsto> 100 / 169 * ln 2 :: real, ''d2'' \<mapsto> 0]
   \<and> all_have_field coll_ab ''body''
   \<and> \<not> all_have_field coll_missing_title ''title''
   \<and> (\<exists>e. score_term (ScorerBM25F [''title'', ''body''] [1/5, 4/5] [3/4, 3/4] (6/5))
            coll_missing_title index_ab ''a'' 1 Map.empty = Inl e)"
proof -
  have run: "score_term (ScorerBM25F [''body''] [1] [3/4] (6/5)) coll_ab index_ab ''a'' 1
      Map.empty = Inr [''d1'' \<mapsto> 100 / 169 * ln 2, ''d2'' \<mapsto> 0]"
    by (simp add: coll_ab_def index_ab_def bm25f_body_def list_getitem_def
        avg_field_length_def py_div_def py_log_def add_score_def score_of_def Let_def)
  have no_title: "\<not> all_have_field coll_missing_title ''title''"
    by (simp add: all_have_field_def coll_missing_title_def)
  then have missing: "\<exists>f\<in>set [''title'', ''body'']. \<not> all_have_field coll_missing_title f"
    by simp
  note ok = bm25f_every_document
    [of "[''body'']" "[1]" "[3/4]" "6/5" coll_ab index_ab "''a''" 1 Map.empty
        "[''d1'' \<mapsto> 100 / 169 * ln 2, ''d2'' \<mapsto> 0]", THEN conjunct1, THEN mp, OF run]
  note bad = bm25f_every_document
    [of "[''title'', ''body'']" "[1/5, 4/5]" "[3/4, 3/4]" "6/5" coll_missing_title index_ab
        "''a''" 1 Map.empty Map.empty, THEN conjunct2, THEN mp, OF missing]
  have "''d2'' \<in> fst ` set coll_ab" by (simp add: coll_ab_def)
  with ok [THEN conjunct1]
  have entry: "''d2'' \<in> dom [''d1'' \<mapsto> 100 / 169 * ln 2 :: real, ''d2'' \<mapsto> 0]" ..
  have "''body'' \<in> set [''body'']" by simp
  with ok [THEN conjunct2] have body: "all_have_field coll_ab ''body''" ..
  show ?thesis
    by (intro conjI run entry body no_title bad)
qed

section \<open>BM25F with a single field\<close>

lemma score_docs_scaled:
  assumes rel: "\<And>doc rF. bodyF doc = Inr rF \<Longrightarrow>
      \<exists>rB. bodyB doc = Inr rB \<and> contribution rB = k * contribution rF"
  shows "score_docs bodyF coll sF = Inr sF' \<Longrightarrow> (\<forall>d. score_of sB d = k * score_of sF d)
    \<Longrightarrow> \<exists>sB'. score_docs bodyB coll sB = Inr sB' \<and> (\<forall>d. score_of sB' d = k * score_of sF' d)"
proof (induction coll arbitrary: sF sB)
  case Nil
  then show ?case by simp
next
  case (Cons p coll)
  obtain d0 doc0 where p: "p = (d0, doc0)" by (cases p)
  from Cons.prems(1) obtain rF where rF: "bodyF doc0 = Inr rF"
    and rest: "(case rF of None \<Rightarrow> score_docs bodyF coll sF
                | Some x \<Rightarrow> score_docs bodyF coll (add_score sF d0 x)) = Inr sF'"
    by (auto simp: p py_then_eq_Inr)
  from rel [OF rF] obtain rB where rB: "bodyB doc0 = Inr rB"
    and c: "contribution rB = k * contribution rF" by blast
  define tF where "tF = (case rF of None \<Rightarrow> sF | Some x \<Rightarrow> add_score sF d0 x)"
  define tB where "tB = (case rB of None \<Rightarrow> sB | Some x \<Rightarrow> add_score sB d0 x)"
  have tFv: "score_of tF d = score_of sF d + (if d = d0 then contribution rF else 0)" for d
    by (cases rF) (simp_all add: tF_def contribution_def score_of_add_score)
  have tBv: "score_of tB d = score_of sB d + (if d = d0 then contribution rB else 0)" for d
    by (cases rB) (simp_all add: tB_def contribution_def score_of_add_score)
  have inv: "\<forall>d. score_of tB d = k * score_of tF d"
    using Cons.prems(2) c by (simp add: tFv tBv distrib_left)
  from rest have "score_docs bodyF coll tF = Inr sF'"
    by (cases rF) (simp_all add: tF_def)
  from Cons.IH [OF this inv] obtain sB' where
    "score_docs bodyB coll tB = Inr sB'" "\<forall>d. score_of sB' d = k * score_of sF' d"
    by blast
  with rB show ?case
    by (cases rB) (simp_all add: p tB_def)
qed

lemma bm25f_single_body:
  assumes "bm25f_body coll idx [''body''] [1] [b] k1 t doc = Inr rF"
  shows "\<exists>rB. bm25_body coll idx ''body'' b k1 t doc = Inr rB
           \<and> contribution rB = (1 + k1) * contribution rF"
proof -
  from assms obtain ts avg postings holders where
    ts: "doc ''body'' = Some ts"
    and avg: "avg_field_length coll ''body'' = Inr avg" "avg \<noteq> 0"
    and idx: "idx ''body'' = Some postings" "postings t = Some holders"
    and holders: "real (length holders) \<noteq> 0"
    and ratio: "\<not> real (length coll) / real (length holders) \<le> 0"
    and B: "1 - b + b * real (length ts) / avg \<noteq> 0"
    and sat: "k1 + real (count_list ts t) / (1 - b + b * real (length ts) / avg) \<noteq> 0"
    and rF: "rF = Some (real (count_list ts t) / (1 - b + b * real (length ts) / avg)
                  / (k1 + real (count_list ts t) / (1 - b + b * real (length ts) / avg))
                  * ln (real (length coll) / real (length holders)))"
    by (auto simp: bm25f_body_def py_then_eq_Inr getitem_eq_Inr list_getitem_def
        py_div_def py_log_def Let_def split: if_splits)
  define tf where "tf = real (count_list ts t)"
  define B where "B = 1 - b + b * real (length ts) / avg"
  define idf where "idf = ln (real (length coll) / real (length holders))"
  have Bn: "B \<noteq> 0" using B by (simp add: B_def)
  have satn: "k1 + tf / B \<noteq> 0" using sat by (simp add: tf_def B_def)
  have rFv: "contribution rF = tf / B / (k1 + tf / B) * idf"
    by (simp add: rF contribution_def tf_def B_def idf_def)
  have den: "tf + k1 * B \<noteq> 0"
  proof
    assume "tf + k1 * B = 0"
    then have "k1 + tf / B = 0" using Bn by (simp add: field_simps)
    with satn show False by contradiction
  qed
  have frac: "tf / B / (k1 + tf / B) = tf / (tf + k1 * B)"
    using Bn by (simp add: field_simps)
  show ?thesis
  proof (cases "t \<in> set ts")
    case False
    then have "tf = 0" by (simp add: tf_def)
    then have "contribution rF = 0" by (simp add: rFv)
    moreover from False ts have "bm25_body coll idx ''body'' b k1 t doc = Inr None"
      by (simp add: bm25_body_def)
    ultimately show ?thesis by (simp add: contribution_def)
  next
    case True
    with ts avg idx holders ratio den
    have "bm25_body coll idx ''body'' b k1 t doc
            = Inr (Some (tf * (1 + k1) / (tf + k1 * B) * idf))"
      by (simp add: bm25_body_def py_div_def py_log_def Let_def tf_def B_def idf_def)
    moreover have "contribution rF = tf / (tf + k1 * B) * idf"
      unfolding rFv frac by (rule refl)
    then have "tf * (1 + k1) / (tf + k1 * B) * idf = (1 + k1) * contribution rF"
      by simp
    ultimately show ?thesis by (simp add: contribution_def)
  qed
qed

lemma bm25f_single_terms:
  "score_terms (ScorerBM25F [''body''] [1] [b] k1) coll idx cs sF = Inr sF'
   \<Longrightarrow> (\<forall>d. score_of sB d = (1 + k1) * score_of sF d)
   \<Longrightarrow> \<exists>sB'. score_terms (ScorerBM25 ''body'' b k1) coll idx cs sB = Inr sB'
          \<and> (\<forall>d. score_of sB' d = (1 + k1) * score_of sF' d)"
proof (induction cs arbitrary: sF sB)
  case Nil
  then show ?case by simp
next
  case (Cons c cs)
  obtain t q where c: "c = (t, q)" by (cases c)
  from Cons.prems(1) obtain tF where
    stepF: "score_docs (bm25f_body coll idx [''body''] [1] [b] k1 t) coll sF = Inr tF"
    and restF: "score_terms (ScorerBM25F [''body''] [1] [b] k1) coll idx cs tF = Inr sF'"
    by (auto simp: c py_then_eq_Inr)
  from score_docs_scaled [where bodyF = "bm25f_body coll idx [''body''] [1] [b] k1 t"
      and bodyB = "bm25_body coll idx ''body'' b k1 t" and k = "1 + k1",
      OF bm25f_single_body stepF Cons.prems(2)]
  obtain tB where stepB: "score_docs (bm25_body coll idx ''body'' b k1 t) coll sB = Inr tB"
    and inv: "\<forall>d. score_of tB d = (1 + k1) * score_of tF d" by blast
  from Cons.IH [OF restF inv] stepB show ?case
    by (simp add: c)
qed

text \<open>
  C2, as stated, fails: with the single field body, weight 1 and the same \<open>b\<close> and \<open>k1\<close>,
  ScorerBM25F and ScorerBM25 differ on the scenario of the specification. BM25F computes
  \<open>c / (k1 + c)\<close>, BM25 computes \<open>tf * (1 + k1) / (tf + k1 * B)\<close>.
\<close>

theorem bm25f_single_field_counterexample:
  "score_collection (ScorerBM25F [''body''] [1] [3/4] (6/5)) coll_ab index_ab [''a'']
     = Inr [''d1'' \<mapsto> 100 / 169 * ln 2, ''d2'' \<mapsto> 0]
   \<and> score_collection (ScorerBM25 ''body'' (3/4) (6/5)) coll_ab index_ab [''a'']
     = Inr [''d1'' \<mapsto> 220 / 169 * ln 2]
   \<and> score_of [''d1'' \<mapsto> 100 / 169 * ln 2, ''d2'' \<mapsto> 0] ''d1''
     \<noteq> score_of [''d1'' \<mapsto> 220 / 169 * ln 2] ''d1''"
  by (simp add: score_collection_def Counter_def coll_ab_def index_ab_def bm25f_body_def
      bm25_body_def list_getitem_def avg_field_length_def py_div_def py_log_def
      add_score_def score_of_def Let_def)

text \<open>
  C2, amended: whenever ScorerBM25F with the single field body, weight 1 and parameters
  \<open>b\<close>, \<open>k1\<close> scores a query, ScorerBM25 with the field body and the same parameters scores
  it too, and for every document the BM25 score is \<open>1 + k1\<close> times the BM25F score
  (a document missing from a mapping counting 0).
\<close>

theorem bm25f_single_field_scaled:
  assumes "score_collection (ScorerBM25F [''body''] [1] [b] k1) coll idx query = Inr sF"
  shows "\<exists>sB. score_collection (ScorerBM25 ''body'' b k1) coll idx query = Inr sB
           \<and> (\<forall>d. score_of sB d = (1 + k1) * score_of sF d)"
  using bm25f_single_terms [of b k1 coll idx "Counter query" Map.empty sF Map.empty] assms
  by (simp add: score_collection_def score_of_def)

theorem bm25f_single_field_scaled_witness:
  "score_collection (ScorerBM25F [''body''] [1] [3/4] (6/5)) coll_ab index_ab [''a'']
     = Inr [''d1'' \<mapsto> 100 / 169 * ln 2, ''d2'' \<mapsto> 0]
   \<and> (\<exists>sB. score_collection (ScorerBM25 ''body'' (3/4) (6/5)) coll_ab index_ab [''a'']
            = Inr sB
         \<and> (\<forall>d. score_of sB d
              = (1 + 6/5) * score_of [''d1'' \<mapsto> 100 / 169 * ln 2, ''d2'' \<mapsto> 0] d))"
proof -
  have run: "score_collection (ScorerBM25F [''body''] [1] [3/4] (6/5)) coll_ab index_ab
      [''a''] = Inr [''d1'' \<mapsto> 100 / 169 * ln 2, ''d2'' \<mapsto> 0]"
    by (simp add: score_collection_def Counter_def coll_ab_def index_ab_def bm25f_body_def
        list_getitem_def avg_field_length_def py_div_def py_log_def
        add_score_def score_of_def Let_def)
  show ?thesis
    by (intro conjI run bm25f_single_field_scaled [OF run])
qed

section \<open>MLM with a single field\<close>

lemma distinct_count_one: "distinct xs \<Longrightarrow> x \<in> set xs \<Longrightarrow> count_list xs x = 1"
  by (induction xs) auto

lemma mlm_single_body:
  assumes "mlm_body coll [''body''] [1] lam t doc = Inr r"
  shows "\<exists>ts P. doc ''body'' = Some ts \<and> collection_prob coll ''body'' t = Inr P
           \<and> \<not> (1 - lam) * (real (count_list ts t) / real (length ts)) + lam * P \<le> 0
           \<and> r = Some (ln ((1 - lam) * (real (count_list ts t) / real (length ts)) + lam * P))"
  using assms
  by (auto simp: mlm_body_def py_then_eq_Inr getitem_eq_Inr list_getitem_def
      py_div_def py_log_def Let_def split: if_splits)

lemma lm_body_of_mlm:
  assumes "mlm_body coll [''body''] [1] lam t doc = Inr r"
    and "collection_prob coll ''body'' t = Inr P"
  shows "\<exists>ts. doc ''body'' = Some ts
           \<and> lm_body ''body'' lam t 1 P doc = Inr (if t \<in> set ts then r else None)"
proof -
  from mlm_single_body [OF assms(1)] assms(2) obtain ts where
    ts: "doc ''body'' = Some ts"
    and pos: "\<not> (1 - lam) * (real (count_list ts t) / real (length ts)) + lam * P \<le> 0"
    and r: "r = Some (ln ((1 - lam) * (real (count_list ts t) / real (length ts)) + lam * P))"
    by auto
  show ?thesis
  proof (cases "t \<in> set ts")
    case False
    with ts show ?thesis by (simp add: lm_body_def)
  next
    case True
    then have "ts \<noteq> []" by auto
    with True ts pos r show ?thesis
      by (simp add: lm_body_def py_div_def py_log_def Let_def)
  qed
qed

lemma mlm_lm_step:
  assumes wf: "wf_collection coll" and mem: "(d, doc) \<in> set coll"
    and ts: "doc ''body'' = Some ts" and t: "t \<in> set ts"
    and run: "score_term (ScorerMLM [''body''] [1] lam) coll idx t q sM = Inr tM"
    and inv: "score_of sL d = score_of sM d"
  shows "\<exists>tL. score_term (ScorerLM ''body'' lam) coll idx t 1 sL = Inr tL
           \<and> score_of tL d = score_of tM d"
proof -
  from run have runM: "score_docs (mlm_body coll [''body''] [1] lam t) coll sM = Inr tM"
    by simp
  from wf have dist: "distinct (map fst coll)" by (simp add: wf_collection_def)
  from score_docs_bodies [OF runM mem] obtain r where
    r: "mlm_body coll [''body''] [1] lam t doc = Inr r" by blast
  from mlm_single_body [OF r] obtain P x where
    P: "collection_prob coll ''body'' t = Inr P" and rx: "r = Some x" by blast
  have bodies: "\<exists>r'. lm_body ''body'' lam t 1 P doc' = Inr r'"
    if "(d', doc') \<in> set coll" for d' doc'
  proof -
    from score_docs_bodies [OF runM that] obtain r' where
      "mlm_body coll [''body''] [1] lam t doc' = Inr r'" by blast
    from lm_body_of_mlm [OF this P] show ?thesis by blast
  qed
  have "\<exists>tL. score_docs (lm_body ''body'' lam t 1 P) coll sL = Inr tL"
    by (rule score_docs_succeeds) (rule bodies)
  then obtain tL where runL: "score_docs (lm_body ''body'' lam t 1 P) coll sL = Inr tL"
    by blast
  from lm_body_of_mlm [OF r P] ts t have bodyL: "lm_body ''body'' lam t 1 P doc = Inr r"
    by simp
  from score_docs_at [OF dist mem runM r] rx
  have "tM d = Some (score_of sM d + x)" by simp
  moreover from score_docs_at [OF dist mem runL bodyL] rx
  have "tL d = Some (score_of sL d + x)" by simp
  ultimately have "score_of tL d = score_of tM d"
    using inv by (simp add: score_of_def)
  with runL P show ?thesis by simp
qed

lemma mlm_lm_terms:
  assumes wf: "wf_collection coll" and mem: "(d, doc) \<in> set coll"
    and ts: "doc ''body'' = Some ts"
  shows "score_terms (ScorerMLM [''body''] [1] lam) coll idx cs sM = Inr sM'
    \<Longrightarrow> (\<And>t n. (t, n) \<in> set cs \<Longrightarrow> t \<in> set ts \<and> n = 1)
    \<Longrightarrow> score_of sL d = score_of sM d
    \<Longrightarrow> \<exists>sL'. score_terms (ScorerLM ''body'' lam) coll idx cs sL = Inr sL'
           \<and> score_of sL' d = score_of sM' d"
proof (induction cs arbitrary: sM sL)
  case Nil
  then show ?case by simp
next
  case (Cons c cs)
  obtain t n where c: "c = (t, n)" by (cases c)
  from Cons.prems(2) [of t n] have t: "t \<in> set ts" and n: "n = 1" by (simp_all add: c)
  from Cons.prems(1) obtain tM where
    stepM: "score_term (ScorerMLM [''body''] [1] lam) coll idx t n sM = Inr tM"
    and restM: "score_terms (ScorerMLM [''body''] [1] lam) coll idx cs tM = Inr sM'"
    by (auto simp: c py_then_eq_Inr)
  from mlm_lm_step [OF wf mem ts t stepM Cons.prems(3)] obtain tL where
    stepL: "score_term (ScorerLM ''body'' lam) coll idx t 1 sL = Inr tL"
    and inv: "score_of tL d = score_of tM d" by blast
  have sub: "\<And>t n. (t, n) \<in> set cs \<Longrightarrow> t \<in> set ts \<and> n = 1"
    using Cons.prems(2) by (auto simp: c)
  have "\<exists>sL'. score_terms (ScorerLM ''body'' lam) coll idx cs tL = Inr sL'
           \<and> score_of sL' d = score_of sM' d"
    using Cons.IH [OF restM _ inv] sub by blast
  then obtain sL' where
    "score_terms (ScorerLM ''body'' lam) coll idx cs tL = Inr sL'"
    "score_of sL' d = score_of sM' d" by blast
  with stepL n show ?case
    by (simp add: c)
qed

text \<open>
  C3, as stated, fails: on the scenario of the specification and the query \<open>[a]\<close>,
  ScorerLM leaves the document \<open>d2\<close>, which does not hold the term, out of the mapping,
  while ScorerMLM with the single field body and weight 1 gives it the score
  \<open>ln (1 / 25)\<close>.
\<close>

theorem mlm_single_field_counterexample:
  "score_collection (ScorerMLM [''body''] [1] (1/10)) coll_ab index_ab [''a'']
     = Inr [''d1'' \<mapsto> ln (16 / 25), ''d2'' \<mapsto> ln (1 / 25)]
   \<and> score_collection (ScorerLM ''body'' (1/10)) coll_ab index_ab [''a'']
     = Inr [''d1'' \<mapsto> ln (16 / 25)]
   \<and> score_of [''d1'' \<mapsto> ln (16 / 25), ''d2'' \<mapsto> ln (1 / 25)] ''d2''
     \<noteq> score_of [''d1'' \<mapsto> ln (16 / 25)] ''d2''"
  by (simp add: score_collection_def Counter_def coll_ab_def index_ab_def mlm_body_def
      lm_body_def collection_prob_def list_getitem_def py_div_def py_log_def
      add_score_def score_of_def Let_def)

lemma mlm_lm_same_score:
  assumes "wf_collection coll" and "(d, doc) \<in> set coll"
    and "doc ''body'' = Some ts" and "distinct query" and "set query \<subseteq> set ts"
    and "score_collection (ScorerMLM [''body''] [1] lam) coll idx query = Inr sM"
  shows "\<exists>sL. score_collection (ScorerLM ''body'' lam) coll idx query = Inr sL
           \<and> score_of sL d = score_of sM d"
proof -
  have items: "t \<in> set ts \<and> n = 1" if "(t, n) \<in> set (Counter query)" for t n
  proof -
    from that have "t \<in> set query" and n: "n = count_list query t"
      by (simp_all add: Counter_items)
    moreover from this assms(4) have "count_list query t = 1"
      by (simp add: distinct_count_one)
    ultimately show ?thesis using assms(5) by auto
  qed
  from assms(6) have
    "score_terms (ScorerMLM [''body''] [1] lam) coll idx (Counter query) Map.empty = Inr sM"
    by (simp add: score_collection_def)
  from mlm_lm_terms [OF assms(1-3) this items refl] show ?thesis
    by (simp add: score_collection_def)
qed

lemma lm_body_succeeds_of_mlm:
  assumes "mlm_body coll [''body''] [1] lam t doc = Inr r"
    and "collection_prob coll ''body'' t = Inr P"
  shows "\<exists>r'. lm_body ''body'' lam t q P doc = Inr r'"
proof -
  from mlm_single_body [OF assms(1)] assms(2) obtain ts where
    ts: "doc ''body'' = Some ts"
    and pos: "\<not> (1 - lam) * (real (count_list ts t) / real (length ts)) + lam * P \<le> 0"
    by auto
  show ?thesis
  proof (cases "t \<in> set ts")
    case False
    with ts show ?thesis by (simp add: lm_body_def)
  next
    case True
    then have "ts \<noteq> []" by auto
    with True ts pos show ?thesis
      by (simp add: lm_body_def py_div_def py_log_def Let_def)
  qed
qed

lemma lm_term_succeeds_of_mlm:
  assumes "coll \<noteq> []"
    and "score_term (ScorerMLM [''body''] [1] lam) coll idx t q sM = Inr tM"
  shows "\<exists>tL. score_term (ScorerLM ''body'' lam) coll idx t n sL = Inr tL"
proof -
  from assms(2) have runM: "score_docs (mlm_body coll [''body''] [1] lam t) coll sM = Inr tM"
    by simp
  from assms(1) obtain d0 doc0 where mem: "(d0, doc0) \<in> set coll"
    by (cases coll) auto
  from score_docs_bodies [OF runM mem] obtain r where
    "mlm_body coll [''body''] [1] lam t doc0 = Inr r" by blast
  from mlm_single_body [OF this] obtain P where
    P: "collection_prob coll ''body'' t = Inr P" by blast
  have bodies: "\<exists>r'. lm_body ''body'' lam t n P doc' = Inr r'"
    if "(d', doc') \<in> set coll" for d' doc'
  proof -
    from score_docs_bodies [OF runM that] obtain r' where
      "mlm_body coll [''body''] [1] lam t doc' = Inr r'" by blast
    from lm_body_succeeds_of_mlm [OF this P] show ?thesis .
  qed
  have "\<exists>tL. score_docs (lm_body ''body'' lam t n P) coll sL = Inr tL"
    by (rule score_docs_succeeds) (rule bodies)
  with P show ?thesis by simp
qed

lemma lm_terms_succeed_of_mlm:
  assumes "coll \<noteq> []"
  shows "score_terms (ScorerMLM [''body''] [1] lam) coll idx cs sM = Inr sM'
    \<Longrightarrow> \<exists>sL'. score_terms (ScorerLM ''body'' lam) coll idx cs sL = Inr sL'"
proof (induction cs arbitrary: sM sL)
  case Nil
  then show ?case by simp
next
  case (Cons c cs)
  obtain t n where c: "c = (t, n)" by (cases c)
  from Cons.prems obtain tM where
    stepM: "score_term (ScorerMLM [''body''] [1] lam) coll idx t n sM = Inr tM"
    and restM: "score_terms (ScorerMLM [''body''] [1] lam) coll idx cs tM = Inr sM'"
    by (auto simp: c py_then_eq_Inr)
  from lm_term_succeeds_of_mlm [OF assms stepM, of n sL] obtain tL where
    stepL: "score_term (ScorerLM ''body'' lam) coll idx t n sL = Inr tL" by blast
  from Cons.IH [OF restM, of tL] stepL show ?case
    by (simp add: c)
qed

lemma mlm_empty_collection:
  "score_collection (ScorerMLM fields ws lam) [] idx query = Inr Map.empty"
proof -
  have "score_terms (ScorerMLM fields ws lam) [] idx cs s = Inr s" for cs s
    by (induction cs arbitrary: s) auto
  then show ?thesis by (simp add: score_collection_def)
qed

text \<open>
  C3, amended: on a non-empty collection, whenever ScorerMLM with the single field body,
  weight 1 and smoothing parameter \<open>lam\<close> scores a query, ScorerLM with the field body and
  the same parameter scores it too; and when the terms of the query are pairwise distinct,
  every document whose body holds every query term has the same score in both mappings.
\<close>

theorem mlm_single_field_agrees:
  assumes "coll \<noteq> []"
    and "score_collection (ScorerMLM [''body''] [1] lam) coll idx query = Inr sM"
  shows "\<exists>sL. score_collection (ScorerLM ''body'' lam) coll idx query = Inr sL
           \<and> (\<forall>d doc ts. wf_collection coll \<longrightarrow> distinct query \<longrightarrow> (d, doc) \<in> set coll
                 \<longrightarrow> doc ''body'' = Some ts \<longrightarrow> set query \<subseteq> set ts
                 \<longrightarrow> score_of sL d = score_of sM d)"
proof -
  from assms(2) have runM:
    "score_terms (ScorerMLM [''body''] [1] lam) coll idx (Counter query) Map.empty = Inr sM"
    by (simp add: score_collection_def)
  from lm_terms_succeed_of_mlm [OF assms(1) runM, of Map.empty] obtain sL where
    sL: "score_collection (ScorerLM ''body'' lam) coll idx query = Inr sL"
    by (auto simp: score_collection_def)
  have "score_of sL d = score_of sM d"
    if "wf_collection coll" "distinct query" "(d, doc) \<in> set coll"
      "doc ''body'' = Some ts" "set query \<subseteq> set ts" for d doc ts
    using mlm_lm_same_score [OF that(1,3,4,2,5) assms(2)] sL by auto
  with sL show ?thesis by blast
qed

theorem mlm_single_field_agrees_witness:
  "coll_ab \<noteq> []
   \<and> score_collection (ScorerMLM [''body''] [1] (1/10)) coll_ab index_ab [''a'']
       = Inr [''d1'' \<mapsto> ln (16 / 25), ''d2'' \<mapsto> ln (1 / 25)]
   \<and> wf_collection coll_ab
   \<and> distinct [''a'']
   \<and> (''d1'', [''body'' \<mapsto> [''a'', ''b'', ''a'']]) \<in> set coll_ab
   \<and> [''body'' \<mapsto> [''a'', ''b'', ''a'']] ''body'' = Some [''a'', ''b'', ''a'']
   \<and> set [''a''] \<subseteq> set [''a'', ''b'', ''a'']
   \<and> (\<exists>sL. score_collection (ScorerLM ''body'' (1/10)) coll_ab index_ab [''a''] = Inr sL
         \<and> score_of sL ''d1''
             = score_of [''d1'' \<mapsto> ln (16 / 25), ''d2'' \<mapsto> ln (1 / 25)] ''d1'')"
proof -
  have ne: "coll_ab \<noteq> []" by (simp add: coll_ab_def)
  have h1: "wf_collection coll_ab"
    by (simp add: coll_ab_def wf_collection_def)
  have h2: "(''d1'', [''body'' \<mapsto> [''a'', ''b'', ''a'']]) \<in> set coll_ab"
    by (simp add: coll_ab_def)
  have h3: "[''body'' \<mapsto> [''a'', ''b'', ''a'']] ''body'' = Some [''a'', ''b'', ''a'']"
    by simp
  have h4: "distinct [''a'']" by simp
  have h5: "set [''a''] \<subseteq> set [''a'', ''b'', ''a'']" by simp
  have h6: "score_collection (ScorerMLM [''body''] [1] (1/10)) coll_ab index_ab [''a'']
       = Inr [''d1'' \<mapsto> ln (16 / 25), ''d2'' \<mapsto> ln (1 / 25)]"
    by (simp add: score_collection_def Counter_def coll_ab_def mlm_body_def
        collection_prob_def list_getitem_def py_div_def py_log_def
        add_score_def score_of_def Let_def)
  from mlm_single_field_agrees [OF ne h6] obtain sL where
    sL: "score_collection (ScorerLM ''body'' (1/10)) coll_ab index_ab [''a''] = Inr sL"
    and eq: "\<forall>d doc ts. wf_collection coll_ab \<longrightarrow> distinct [''a''] \<longrightarrow> (d, doc) \<in> set coll_ab
                 \<longrightarrow> doc ''body'' = Some ts \<longrightarrow> set [''a''] \<subseteq> set ts
                 \<longrightarrow> score_of sL d
                     = score_of [''d1'' \<mapsto> ln (16 / 25), ''d2'' \<mapsto> ln (1 / 25)] d"
    by (elim exE conjE)
  have "score_of sL ''d1''
      = score_of [''d1'' \<mapsto> ln (16 / 25), ''d2'' \<mapsto> ln (1 / 25)] ''d1''"
    by (rule eq [rule_format, OF h1 h4 h2 h3 h5])
  with sL have ex:
    "\<exists>sL. score_collection (ScorerLM ''body'' (1/10)) coll_ab index_ab [''a''] = Inr sL
         \<and> score_of sL ''d1''
             = score_of [''d1'' \<mapsto> ln (16 / 25), ''d2'' \<mapsto> ln (1 / 25)] ''d1''"
    by (intro exI conjI)
  show ?thesis by (intro conjI ne h6 h1 h4 h2 h3 h5 ex)
qed

end
